theory Spec2Isabelle
  imports Complex_Main "HOL-Library.Log_Nat"
begin

section \<open>Values of the compute kernels\<close>

text \<open>
  The simulator (class \<open>mlsMpmSimulator\<close>) builds five compute kernels in \<open>init\<close>:
  \<open>clearGrid\<close>, \<open>p2g1\<close>, \<open>p2g2\<close>, \<open>updateGrid\<close> and \<open>g2p\<close>, and \<open>update\<close> runs them in
  this order.  The embedding reads every \<open>int\<close> as a mathematical integer kept inside the
  32-bit two's complement range by \<open>wrap32\<close>, and every \<open>float\<close> of the shading language
  as a real number.  The weights, forces and velocities are computed in exact arithmetic;
  in the fixed-point codec and in the selection of the hidden particles, where the result
  depends on it, every operation is rounded to single precision by \<open>fround\<close>.  An
  operation whose floating-point result
  would be infinite or not a number (a division by zero) is the error \<open>NonFinite\<close>; a
  buffer access outside the buffer is the error \<open>OutOfBounds\<close>; an integer division by
  zero is the error \<open>DivideByZero\<close>.
\<close>

datatype error = NonFinite | OutOfBounds | DivideByZero

datatype vec3 = vec3 (vec_x: real) (vec_y: real) (vec_z: real)

datatype ivec3 = ivec3 (ivec_x: int) (ivec_y: int) (ivec_z: int)

datatype vec4 = vec4 (vec4_x: real) (vec4_y: real) (vec4_z: real) (vec4_w: real)

text \<open>A \<open>mat3\<close> is stored by columns, as its constructor takes them.\<close>

datatype mat3 = mat3 (col0: vec3) (col1: vec3) (col2: vec3)

definition i32_min :: int where
  "i32_min = - 2147483648"

definition i32_max :: int where
  "i32_max = 2147483647"

definition wrap32 :: "int \<Rightarrow> int" where
  "wrap32 n = (n + 2147483648) mod 4294967296 - 2147483648"

text \<open>
  Single precision.  A \<open>float\<close> has a significand of 24 bits: the singles of magnitude in
  \<open>[2^e, 2^(e+1))\<close> are the multiples of \<open>2^(e-23)\<close>, for \<open>e \<ge> -126\<close>, and below \<open>2^-126\<close>
  the multiples of \<open>2^-149\<close>.  \<open>fround\<close> (the \<open>Math.fround\<close> of the host language) rounds a
  real number to the nearest single, a tie to the one with the even significand.  The
  kernels do not reach the largest single, so the overflow to infinity is left out.
\<close>

definition round_even :: "real \<Rightarrow> int" where
  "round_even y =
     (let n = \<lfloor>y\<rfloor>; d = y - real_of_int n
      in if d < 1 / 2 then n else if 1 / 2 < d then n + 1 else if even n then n else n + 1)"

definition fexponent :: "real \<Rightarrow> int" where
  "fexponent x =
     (if \<bar>x\<bar> < 2 powi (- 126) then - 126
      else if 1 \<le> \<bar>x\<bar> then bitlen \<lfloor>\<bar>x\<bar>\<rfloor> - 1
      else - bitlen (\<lceil>1 / \<bar>x\<bar>\<rceil> - 1))"

definition fround :: "real \<Rightarrow> real" where
  "fround x =
     (let u = 2 powi (fexponent x - 23)
      in sgn x * (real_of_int (round_even (\<bar>x\<bar> / u)) * u))"

text \<open>
  The conversion \<open>int(f)\<close> of a float drops the fractional part (rounds toward zero)
  and saturates at the least 32-bit integer and at \<open>2147483520\<close>, the greatest single
  below \<open>2^31\<close>.
\<close>

definition ftrunc :: "real \<Rightarrow> int" where
  "ftrunc r = (if 0 \<le> r then \<lfloor>r\<rfloor> else \<lceil>r\<rceil>)"

definition int_of_float :: "real \<Rightarrow> int" where
  "int_of_float r = max i32_min (min 2147483520 (ftrunc r))"

definition fdiv :: "real \<Rightarrow> real \<Rightarrow> error + real" where
  "fdiv a b = (if b = 0 then Inl NonFinite else Inr (a / b))"

definition mix :: "real \<Rightarrow> real \<Rightarrow> real \<Rightarrow> real" where
  "mix a b t = a * (1 - t) + b * t"

definition clamp :: "real \<Rightarrow> real \<Rightarrow> real \<Rightarrow> real" where
  "clamp v lo hi = min (max v lo) hi"

definition vadd :: "vec3 \<Rightarrow> vec3 \<Rightarrow> vec3" where
  "vadd a b = vec3 (vec_x a + vec_x b) (vec_y a + vec_y b) (vec_z a + vec_z b)"

definition vsub :: "vec3 \<Rightarrow> vec3 \<Rightarrow> vec3" where
  "vsub a b = vec3 (vec_x a - vec_x b) (vec_y a - vec_y b) (vec_z a - vec_z b)"

definition vscale :: "vec3 \<Rightarrow> real \<Rightarrow> vec3" where
  "vscale a s = vec3 (vec_x a * s) (vec_y a * s) (vec_z a * s)"

definition vmul :: "vec3 \<Rightarrow> vec3 \<Rightarrow> vec3" where
  "vmul a b = vec3 (vec_x a * vec_x b) (vec_y a * vec_y b) (vec_z a * vec_z b)"

definition vlength :: "vec3 \<Rightarrow> real" where
  "vlength a = sqrt (vec_x a * vec_x a + vec_y a * vec_y a + vec_z a * vec_z a)"

text \<open>\<open>normalize\<close> divides by the length: the zero vector has no direction.\<close>

definition normalize :: "vec3 \<Rightarrow> error + vec3" where
  "normalize a = (if vlength a = 0 then Inl NonFinite else Inr (vscale a (1 / vlength a)))"

text \<open>Matrix times vector, transpose, sum and scaling of matrices.\<close>

definition mat_vec :: "mat3 \<Rightarrow> vec3 \<Rightarrow> vec3" where
  "mat_vec m v =
     vadd (vadd (vscale (col0 m) (vec_x v)) (vscale (col1 m) (vec_y v))) (vscale (col2 m) (vec_z v))"

definition transpose_mat :: "mat3 \<Rightarrow> mat3" where
  "transpose_mat m =
     mat3 (vec3 (vec_x (col0 m)) (vec_x (col1 m)) (vec_x (col2 m)))
          (vec3 (vec_y (col0 m)) (vec_y (col1 m)) (vec_y (col2 m)))
          (vec3 (vec_z (col0 m)) (vec_z (col1 m)) (vec_z (col2 m)))"

definition mat_add :: "mat3 \<Rightarrow> mat3 \<Rightarrow> mat3" where
  "mat_add a b = mat3 (vadd (col0 a) (col0 b)) (vadd (col1 a) (col1 b)) (vadd (col2 a) (col2 b))"

definition mat_scale :: "mat3 \<Rightarrow> real \<Rightarrow> mat3" where
  "mat_scale a s = mat3 (vscale (col0 a) s) (vscale (col1 a) s) (vscale (col2 a) s)"

definition zero_mat :: mat3 where
  "zero_mat = mat3 (vec3 0 0 0) (vec3 0 0 0) (vec3 0 0 0)"

definition cross :: "vec3 \<Rightarrow> vec3 \<Rightarrow> vec3" where
  "cross a b =
     vec3 (vec_y a * vec_z b - vec_z a * vec_y b) (vec_z a * vec_x b - vec_x a * vec_z b)
          (vec_x a * vec_y b - vec_y a * vec_x b)"

definition vmix :: "vec3 \<Rightarrow> vec3 \<Rightarrow> real \<Rightarrow> vec3" where
  "vmix a b t = vec3 (mix (vec_x a) (vec_x b) t) (mix (vec_y a) (vec_y b) t) (mix (vec_z a) (vec_z b) t)"

definition vclamp :: "vec3 \<Rightarrow> vec3 \<Rightarrow> vec3 \<Rightarrow> vec3" where
  "vclamp v lo hi =
     vec3 (clamp (vec_x v) (vec_x lo) (vec_x hi)) (clamp (vec_y v) (vec_y lo) (vec_y hi))
          (clamp (vec_z v) (vec_z lo) (vec_z hi))"

section \<open>The fixed-point codec\<close>

text \<open>
  \<^verbatim>\<open>
  fixedPointMultiplier = 1e7;
  const encodeFixedPoint = (f32) => { return int(f32.mul(this.fixedPointMultiplier)); }
  const decodeFixedPoint = (i32) => { return float(i32).div(this.fixedPointMultiplier); }
  \<close>
  The product, the conversion \<open>float(i32)\<close> and the quotient are single-precision
  operations; \<open>1e7\<close> is a single.
\<close>

definition fixedPointMultiplier :: real where
  "fixedPointMultiplier = 10000000"

definition encodeFixedPoint :: "real \<Rightarrow> int" where
  "encodeFixedPoint f32 = int_of_float (fround (f32 * fixedPointMultiplier))"

definition decodeFixedPoint :: "int \<Rightarrow> real" where
  "decodeFixedPoint i32 = fround (fround (real_of_int i32) / fixedPointMultiplier)"

section \<open>Buffers and uniforms\<close>

text \<open>
  \<^verbatim>\<open>
  const particleStruct = { position: vec3, density: float, velocity: vec3, mass: float,
                           C: mat3, direction: vec3, color: vec3 };
  const cellStruct = { x: int(atomic), y: int(atomic), z: int(atomic), mass: int(atomic) };
  this.gridSize.set(128,64,64);
  const cellCount = this.gridSize.x * this.gridSize.y * this.gridSize.z;
  this.cellBufferF = instancedArray(cellCount, 'vec4');
  \<close>
  The two cell buffers have 524288 elements; they are functions on the element index and
  every access checks the index against \<open>cellCount\<close>.
\<close>

record particle =
  position :: vec3
  density :: real
  velocity :: vec3
  mass :: real
  C_mat :: mat3
  direction :: vec3
  color :: vec3

record cell =
  cell_x :: int
  cell_y :: int
  cell_z :: int
  cell_mass :: int

record state =
  particleBuffer :: "particle list"
  cellBuffer :: "nat \<Rightarrow> cell"
  cellBufferF :: "nat \<Rightarrow> vec4"

definition gridSize :: ivec3 where
  "gridSize = ivec3 128 64 64"

definition cellCount :: nat where
  "cellCount = 128 * 64 * 64"

text \<open>
  The uniforms the kernels read, with the values \<open>init\<close> gives them in comments.  The
  blocks of \<open>g2p\<close> are embedded one by one; its polygon-containment block and its nine
  population-segment blocks, each guarded by its own mode flag, are left out together
  with their uniforms.
\<close>

record uniforms =
  numParticles :: nat
  dt :: real
  stiffness :: real
  restDensity :: real
  dynamicViscosity :: real
  noise :: real
  gridMode :: nat
  frontGravityMode :: nat
  cylinderMode :: nat
  cylinderRadius :: real  \<comment> \<open>44\<close>
  cylinderCenterX :: real  \<comment> \<open>64\<close>
  cylinderCenterY :: real  \<comment> \<open>32\<close>
  sphereContainmentMode :: nat
  colorSpheresMode :: nat
  twoColorSphereMode :: nat
  colorSpheresBoostTime :: real
  colorSpheresBoostDuration :: real  \<comment> \<open>1.4\<close>
  sphereRadius :: real  \<comment> \<open>25\<close>
  colorSphereRadius :: real  \<comment> \<open>7\<close>
  sphereCenterX :: real  \<comment> \<open>64\<close>
  sphereCenterY :: real  \<comment> \<open>32\<close>
  sphereCenterZ :: real  \<comment> \<open>32\<close>
  colorSpherePositions :: "vec3 list"
  paletteColors :: "vec3 list"
  gridWidth :: nat
  gridStartX :: real
  gridStartY :: real
  gridSpacingX :: real
  gridSpacingY :: real
  gridZ :: real  \<comment> \<open>32\<close>
  gridRandomOffset :: real  \<comment> \<open>0.5\<close>
  gridNoiseStrength :: real
  mouseRayDirection :: vec3
  mouseRayOrigin :: vec3
  mouseForce :: vec3
  cursorInteraction :: nat
  hidePercentage :: real

text \<open>
  \<open>triNoise3Dvec\<close> is imported from \<open>../common/noise\<close> and \<open>time\<close> is the clock of the
  shading language; both are inputs of the model.
\<close>

record env =
  triNoise3Dvec :: "vec3 \<Rightarrow> real \<Rightarrow> real \<Rightarrow> vec3"
  time :: real

definition and_then :: "error + 'a \<Rightarrow> ('a \<Rightarrow> error + 'b) \<Rightarrow> error + 'b" where
  "and_then m f = (case m of Inl e \<Rightarrow> Inl e | Inr v \<Rightarrow> f v)"

text \<open>
  A dispatch runs the kernel once for every index; an invocation that fails stops the
  pass with its error.
\<close>

fun foldM :: "('a \<Rightarrow> 's \<Rightarrow> error + 's) \<Rightarrow> 'a list \<Rightarrow> 's \<Rightarrow> error + 's" where
  "foldM f [] s = Inr s"
| "foldM f (a # as) s = (case f a s of Inl e \<Rightarrow> Inl e | Inr s' \<Rightarrow> foldM f as s')"

definition particle_at :: "state \<Rightarrow> nat \<Rightarrow> error + particle" where
  "particle_at st i =
     (if i < length (particleBuffer st) then Inr (particleBuffer st ! i) else Inl OutOfBounds)"

section \<open>ClearGrid\<close>

text \<open>
  \<^verbatim>\<open>
  If(instanceIndex.greaterThanEqual(uint(cellCount)), () => { Return(); });
  this.cellBuffer.element(instanceIndex).get('x').assign(0);   // and y, z, mass
  this.cellBufferF.element(instanceIndex).assign(0);
  \<close>
\<close>

definition clearGrid_kernel :: "nat \<Rightarrow> state \<Rightarrow> state" where
  "clearGrid_kernel instanceIndex st =
     (if instanceIndex \<ge> cellCount then st
      else st\<lparr>cellBuffer := (cellBuffer st)
                  (instanceIndex := \<lparr>cell_x = 0, cell_y = 0, cell_z = 0, cell_mass = 0\<rparr>),
              cellBufferF := (cellBufferF st)(instanceIndex := vec4 0 0 0 0)\<rparr>)"

definition clearGrid :: "state \<Rightarrow> state" where
  "clearGrid st = fold clearGrid_kernel [0..<cellCount] st"

section \<open>The stencil shared by the particle kernels\<close>

text \<open>
  \<^verbatim>\<open>
  const getCellPtr = (ipos) => int(ipos.x).mul(gridSize.y).mul(gridSize.z)
                                 .add(int(ipos.y).mul(gridSize.z)).add(int(ipos.z));
  const cellIndex = ivec3(particlePosition).sub(1);
  const cellDiff = particlePosition.fract().sub(0.5);
  const w0 = float(0.5).mul(float(0.5).sub(cellDiff)).mul(float(0.5).sub(cellDiff));
  const w1 = float(0.75).sub(cellDiff.mul(cellDiff));
  const w2 = float(0.5).mul(float(0.5).add(cellDiff)).mul(float(0.5).add(cellDiff));
  const weights = array([w0,w1,w2]);
  Loop gx in 0..2, gy in 0..2, gz in 0..2:
      const weight = weights.element(gx).x.mul(weights.element(gy).y).mul(weights.element(gz).z);
      const cellX = cellIndex.add(ivec3(gx,gy,gz));
      const cellDist = vec3(cellX).add(0.5).sub(particlePosition);
  \<close>
\<close>

definition getCellPtr :: "ivec3 \<Rightarrow> int" where
  "getCellPtr ipos =
     wrap32 (ivec_x ipos * ivec_y gridSize * ivec_z gridSize + ivec_y ipos * ivec_z gridSize
             + ivec_z ipos)"

definition cellIndex_of :: "vec3 \<Rightarrow> ivec3" where
  "cellIndex_of particlePosition =
     ivec3 (wrap32 (int_of_float (vec_x particlePosition) - 1))
           (wrap32 (int_of_float (vec_y particlePosition) - 1))
           (wrap32 (int_of_float (vec_z particlePosition) - 1))"

definition cellDiff_of :: "vec3 \<Rightarrow> vec3" where
  "cellDiff_of particlePosition =
     vec3 (frac (vec_x particlePosition) - 0.5) (frac (vec_y particlePosition) - 0.5)
          (frac (vec_z particlePosition) - 0.5)"

definition w0 :: "real \<Rightarrow> real" where
  "w0 d = 0.5 * (0.5 - d) * (0.5 - d)"

definition w1 :: "real \<Rightarrow> real" where
  "w1 d = 0.75 - d * d"

definition w2 :: "real \<Rightarrow> real" where
  "w2 d = 0.5 * (0.5 + d) * (0.5 + d)"

text \<open>\<open>weights.element(g)\<close> for the loop values \<open>g = 0, 1, 2\<close>, componentwise in \<open>cellDiff\<close>.\<close>

definition weights :: "vec3 \<Rightarrow> nat \<Rightarrow> vec3" where
  "weights cellDiff g =
     (let w = (if g = 0 then w0 else if g = 1 then w1 else w2)
      in vec3 (w (vec_x cellDiff)) (w (vec_y cellDiff)) (w (vec_z cellDiff)))"

definition stencil :: "(nat \<times> nat \<times> nat) list" where
  "stencil = concat (map (\<lambda>gx. concat (map (\<lambda>gy. map (\<lambda>gz. (gx, gy, gz)) [0, 1, 2]) [0, 1, 2]))
                         [0, 1, 2])"

definition weight_of :: "vec3 \<Rightarrow> nat \<times> nat \<times> nat \<Rightarrow> real" where
  "weight_of particlePosition g =
     (case g of (gx, gy, gz) \<Rightarrow>
        vec_x (weights (cellDiff_of particlePosition) gx)
        * vec_y (weights (cellDiff_of particlePosition) gy)
        * vec_z (weights (cellDiff_of particlePosition) gz))"

definition cellX_of :: "vec3 \<Rightarrow> nat \<times> nat \<times> nat \<Rightarrow> ivec3" where
  "cellX_of particlePosition g =
     (case g of (gx, gy, gz) \<Rightarrow>
        ivec3 (wrap32 (ivec_x (cellIndex_of particlePosition) + int gx))
              (wrap32 (ivec_y (cellIndex_of particlePosition) + int gy))
              (wrap32 (ivec_z (cellIndex_of particlePosition) + int gz)))"

definition cellDist_of :: "vec3 \<Rightarrow> nat \<times> nat \<times> nat \<Rightarrow> vec3" where
  "cellDist_of particlePosition g =
     (let cellX = cellX_of particlePosition g
      in vsub (vec3 (real_of_int (ivec_x cellX) + 0.5) (real_of_int (ivec_y cellX) + 0.5)
                    (real_of_int (ivec_z cellX) + 0.5))
              particlePosition)"

text \<open>\<open>getCell(cellX)\<close>: the element index, when it lies inside the buffer.\<close>

definition getCell :: "ivec3 \<Rightarrow> error + nat" where
  "getCell ipos =
     (if 0 \<le> getCellPtr ipos \<and> getCellPtr ipos < int cellCount
      then Inr (nat (getCellPtr ipos)) else Inl OutOfBounds)"

text \<open>\<open>atomicAdd\<close> on one field of a cell: a 32-bit addition, which wraps around.\<close>

definition atomicAdd_x :: "nat \<Rightarrow> int \<Rightarrow> (nat \<Rightarrow> cell) \<Rightarrow> (nat \<Rightarrow> cell)" where
  "atomicAdd_x c v cb = cb(c := (cb c)\<lparr>cell_x := wrap32 (cell_x (cb c) + v)\<rparr>)"

definition atomicAdd_y :: "nat \<Rightarrow> int \<Rightarrow> (nat \<Rightarrow> cell) \<Rightarrow> (nat \<Rightarrow> cell)" where
  "atomicAdd_y c v cb = cb(c := (cb c)\<lparr>cell_y := wrap32 (cell_y (cb c) + v)\<rparr>)"

definition atomicAdd_z :: "nat \<Rightarrow> int \<Rightarrow> (nat \<Rightarrow> cell) \<Rightarrow> (nat \<Rightarrow> cell)" where
  "atomicAdd_z c v cb = cb(c := (cb c)\<lparr>cell_z := wrap32 (cell_z (cb c) + v)\<rparr>)"

definition atomicAdd_mass :: "nat \<Rightarrow> int \<Rightarrow> (nat \<Rightarrow> cell) \<Rightarrow> (nat \<Rightarrow> cell)" where
  "atomicAdd_mass c v cb = cb(c := (cb c)\<lparr>cell_mass := wrap32 (cell_mass (cb c) + v)\<rparr>)"

section \<open>Scatter-1: \<open>p2g1\<close>\<close>

text \<open>
  \<^verbatim>\<open>
  If(instanceIndex.greaterThanEqual(uint(this.uniforms.numParticles)), () => { Return(); });
  const C = particle.get('C');
  Loop ...:
      const Q = C.mul(cellDist);
      const massContrib = weight; // assuming particle mass = 1.0
      const velContrib = massContrib.mul(particleVelocity.add(Q));
      const cell = getCell(cellX);
      atomicAdd(cell.get('x'), encodeFixedPoint(velContrib.x));   // and y, z
      atomicAdd(cell.get('mass'), encodeFixedPoint(massContrib));
  \<close>
\<close>

definition massContrib :: "vec3 \<Rightarrow> nat \<times> nat \<times> nat \<Rightarrow> real" where
  "massContrib particlePosition g = weight_of particlePosition g"

definition velContrib :: "particle \<Rightarrow> nat \<times> nat \<times> nat \<Rightarrow> vec3" where
  "velContrib p g =
     vscale (vadd (velocity p) (mat_vec (C_mat p) (cellDist_of (position p) g)))
            (massContrib (position p) g)"

definition p2g1_cell :: "particle \<Rightarrow> nat \<times> nat \<times> nat \<Rightarrow> (nat \<Rightarrow> cell) \<Rightarrow> error + (nat \<Rightarrow> cell)" where
  "p2g1_cell p g cb =
     and_then (getCell (cellX_of (position p) g)) (\<lambda>c.
       Inr (atomicAdd_mass c (encodeFixedPoint (massContrib (position p) g))
           (atomicAdd_z c (encodeFixedPoint (vec_z (velContrib p g)))
           (atomicAdd_y c (encodeFixedPoint (vec_y (velContrib p g)))
           (atomicAdd_x c (encodeFixedPoint (vec_x (velContrib p g))) cb)))))"

definition p2g1_kernel :: "uniforms \<Rightarrow> nat \<Rightarrow> state \<Rightarrow> error + state" where
  "p2g1_kernel u instanceIndex st =
     (if instanceIndex \<ge> numParticles u then Inr st
      else and_then (particle_at st instanceIndex) (\<lambda>p.
           and_then (foldM (p2g1_cell p) stencil (cellBuffer st)) (\<lambda>cb.
           Inr (st\<lparr>cellBuffer := cb\<rparr>))))"

definition p2g1 :: "uniforms \<Rightarrow> state \<Rightarrow> error + state" where
  "p2g1 u st = foldM (p2g1_kernel u) [0..<numParticles u] st"

section \<open>Scatter-2: \<open>p2g2\<close>\<close>

text \<open>
  \<^verbatim>\<open>
  const density = float(0).toVar("density");
  Loop ...: density.addAssign(decodeFixedPoint(cell.get('mass')).mul(weight));
  densityStore.assign(mix(densityStore, density, 0.05));
  const volume = float(1).div(density);
  const pressure = max(0.0, pow(density.div(restDensity), 5.0).sub(1).mul(stiffness));
  const stress = mat3(-pressure, 0, 0, 0, -pressure, 0, 0, 0, -pressure);
  const strain = dudv.add(dudv.transpose());        // dudv = particle C
  stress.addAssign(strain.mul(dynamicViscosity));
  const eq16Term0 = volume.mul(-4).mul(stress).mul(dt);
  Loop ...:
      const momentum = eq16Term0.mul(weight).mul(cellDist);
      atomicAdd(cell.get('x'), encodeFixedPoint(momentum.x));     // and y, z
  \<close>
  The division \<open>float(1).div(density)\<close> is written without a test of \<open>density\<close>.
  \<open>pow\<close> with a negative base has no defined result.
\<close>

definition density_add :: "vec3 \<Rightarrow> (nat \<Rightarrow> cell) \<Rightarrow> nat \<times> nat \<times> nat \<Rightarrow> real \<Rightarrow> error + real" where
  "density_add particlePosition cb g dens =
     and_then (getCell (cellX_of particlePosition g)) (\<lambda>c.
       Inr (dens + decodeFixedPoint (cell_mass (cb c)) * weight_of particlePosition g))"

definition gather_density :: "vec3 \<Rightarrow> (nat \<Rightarrow> cell) \<Rightarrow> error + real" where
  "gather_density particlePosition cb = foldM (density_add particlePosition cb) stencil 0"

definition pow5 :: "real \<Rightarrow> error + real" where
  "pow5 b = (if b < 0 then Inl NonFinite else Inr (b ^ 5))"

definition pressure_of :: "uniforms \<Rightarrow> real \<Rightarrow> error + real" where
  "pressure_of u dens =
     and_then (fdiv dens (restDensity u)) (\<lambda>q.
     and_then (pow5 q) (\<lambda>pw. Inr (max 0 ((pw - 1) * stiffness u))))"

definition stress_of :: "uniforms \<Rightarrow> real \<Rightarrow> mat3 \<Rightarrow> mat3" where
  "stress_of u pressure dudv =
     mat_add (mat3 (vec3 (- pressure) 0 0) (vec3 0 (- pressure) 0) (vec3 0 0 (- pressure)))
             (mat_scale (mat_add dudv (transpose_mat dudv)) (dynamicViscosity u))"

definition eq16Term0_of :: "uniforms \<Rightarrow> real \<Rightarrow> mat3 \<Rightarrow> error + mat3" where
  "eq16Term0_of u dens dudv =
     and_then (fdiv 1 dens) (\<lambda>volume.
     and_then (pressure_of u dens) (\<lambda>pressure.
       Inr (mat_scale (mat_scale (stress_of u pressure dudv) (volume * (- 4))) (dt u))))"

definition p2g2_cell :: "vec3 \<Rightarrow> mat3 \<Rightarrow> nat \<times> nat \<times> nat \<Rightarrow> (nat \<Rightarrow> cell) \<Rightarrow> error + (nat \<Rightarrow> cell)" where
  "p2g2_cell particlePosition eq16Term0 g cb =
     and_then (getCell (cellX_of particlePosition g)) (\<lambda>c.
       let momentum = mat_vec (mat_scale eq16Term0 (weight_of particlePosition g))
                              (cellDist_of particlePosition g)
       in Inr (atomicAdd_z c (encodeFixedPoint (vec_z momentum))
              (atomicAdd_y c (encodeFixedPoint (vec_y momentum))
              (atomicAdd_x c (encodeFixedPoint (vec_x momentum)) cb))))"

definition p2g2_kernel :: "uniforms \<Rightarrow> nat \<Rightarrow> state \<Rightarrow> error + state" where
  "p2g2_kernel u instanceIndex st =
     (if instanceIndex \<ge> numParticles u then Inr st
      else and_then (particle_at st instanceIndex) (\<lambda>p.
           and_then (gather_density (position p) (cellBuffer st)) (\<lambda>dens.
           and_then (eq16Term0_of u dens (C_mat p)) (\<lambda>eq16Term0.
           and_then (foldM (p2g2_cell (position p) eq16Term0) stencil (cellBuffer st)) (\<lambda>cb.
           Inr (st\<lparr>particleBuffer := (particleBuffer st)
                       [instanceIndex := p\<lparr>density := mix (density p) dens 0.05\<rparr>],
                   cellBuffer := cb\<rparr>))))))"

definition p2g2 :: "uniforms \<Rightarrow> state \<Rightarrow> error + state" where
  "p2g2 u st = foldM (p2g2_kernel u) [0..<numParticles u] st"

section \<open>GridUpdate: \<open>updateGrid\<close>\<close>

text \<open>
  \<^verbatim>\<open>
  If(instanceIndex.greaterThanEqual(uint(cellCount)), () => { Return(); });
  const cell = this.cellBuffer.element(instanceIndex);
  const mass = decodeFixedPoint(cell.get('mass'));
  If(mass.lessThanEqual(0), () => { Return(); });
  const vx = decodeFixedPoint(cell.get('x')).div(mass).toVar();       // and vy, vz
  const x = int(instanceIndex).div(gridSize.z).div(gridSize.y);
  const y = int(instanceIndex).div(gridSize.z).mod(gridSize.y);
  const z = int(instanceIndex).mod(gridSize.z);
  If(x.lessThan(int(2)).or(x.greaterThan(gridSize.x.sub(int(2)))), () => { vx.assign(0); });
  If(y.lessThan(int(2)).or(y.greaterThan(gridSize.y.sub(int(2)))), () => { vy.assign(0); });
  If(z.lessThan(int(2)).or(z.greaterThan(gridSize.z.sub(int(2)))), () => { vz.assign(0); });
  this.cellBufferF.element(instanceIndex).assign(vec4(vx,vy,vz,mass));
  \<close>
  The kernel returns the new element of \<open>cellBufferF\<close>, or nothing when it returned
  before the assignment.
\<close>

definition cell_coord :: "nat \<Rightarrow> ivec3" where
  "cell_coord instanceIndex =
     ivec3 (int instanceIndex div ivec_z gridSize div ivec_y gridSize)
           (int instanceIndex div ivec_z gridSize mod ivec_y gridSize)
           (int instanceIndex mod ivec_z gridSize)"

definition updateGrid_cell :: "nat \<Rightarrow> cell \<Rightarrow> error + vec4 option" where
  "updateGrid_cell instanceIndex cell =
     (let mass = decodeFixedPoint (cell_mass cell)
      in if mass \<le> 0 then Inr None
         else and_then (fdiv (decodeFixedPoint (cell_x cell)) mass) (\<lambda>vx.
              and_then (fdiv (decodeFixedPoint (cell_y cell)) mass) (\<lambda>vy.
              and_then (fdiv (decodeFixedPoint (cell_z cell)) mass) (\<lambda>vz.
                let x = ivec_x (cell_coord instanceIndex);
                    y = ivec_y (cell_coord instanceIndex);
                    z = ivec_z (cell_coord instanceIndex);
                    vx = (if x < 2 \<or> x > ivec_x gridSize - 2 then 0 else vx);
                    vy = (if y < 2 \<or> y > ivec_y gridSize - 2 then 0 else vy);
                    vz = (if z < 2 \<or> z > ivec_z gridSize - 2 then 0 else vz)
                in Inr (Some (vec4 vx vy vz mass))))))"

definition updateGrid_kernel :: "nat \<Rightarrow> state \<Rightarrow> error + state" where
  "updateGrid_kernel instanceIndex st =
     (if instanceIndex \<ge> cellCount then Inr st
      else and_then (updateGrid_cell instanceIndex (cellBuffer st instanceIndex)) (\<lambda>r.
           case r of None \<Rightarrow> Inr st
           | Some v \<Rightarrow> Inr (st\<lparr>cellBufferF := (cellBufferF st)(instanceIndex := v)\<rparr>)))"

definition updateGrid :: "state \<Rightarrow> error + state" where
  "updateGrid st = foldM updateGrid_kernel [0..<cellCount] st"

section \<open>Gather: \<open>g2p\<close>\<close>

text \<open>
  \<^verbatim>\<open>
  const particleIndexPercent = float(instanceIndex).div(float(this.uniforms.numParticles)).mul(100.0);
  const shouldHide = this.uniforms.hidePercentage.greaterThan(0.0)
                         .and(particleIndexPercent.lessThan(this.uniforms.hidePercentage));
  \<close>
  The kernel evaluates this only for \<open>instanceIndex < numParticles\<close>, so the divisor is
  positive.  The two conversions, the quotient and the product are single-precision
  operations.
\<close>

definition particleIndexPercent :: "uniforms \<Rightarrow> nat \<Rightarrow> real" where
  "particleIndexPercent u instanceIndex =
     fround (fround (fround (real instanceIndex) / fround (real (numParticles u))) * 100)"

definition shouldHide :: "uniforms \<Rightarrow> nat \<Rightarrow> bool" where
  "shouldHide u instanceIndex =
     (hidePercentage u > 0 \<and> particleIndexPercent u instanceIndex < hidePercentage u)"

text \<open>
  Image-target force (\<open>gridMode\<close>):
  \<^verbatim>\<open>
  const gridX = int(instanceIndex).mod(gridWidthInt);  const gridY = int(instanceIndex).div(gridWidthInt);
  const hash = float(instanceIndex).mul(12.9898).add(float(gridX).mul(78.233)).add(float(gridY).mul(37.719));
  const randomX = hash.fract().mul(2.0).sub(1.0);
  const randomY = hash.mul(43758.5453).fract().mul(2.0).sub(1.0);
  const offsetX = randomX.mul(gridSpacingX).mul(gridRandomOffset);      // and offsetY
  const targetX = float(gridStartX).add(float(gridX).mul(gridSpacingX)).add(offsetX);   // and targetY
  let targetPos = vec3(targetX, targetY, gridZ).toVar();
  targetPos.addAssign(triNoise3Dvec(particlePosition.mul(0.92), 1.15, time).mul(gridNoiseStrength).mul(2.0));
  targetPos.z.addAssign(triNoise3Dvec(particlePosition.mul(0.85).add(vec3(100.0, 200.0, 300.0)), 0.02, time)
                            .z.mul(gridNoiseStrength).mul(2.0));
  const toTarget = targetPos.sub(particlePosition);
  const forceStrength = toTarget.length().mul(10.0);
  particleVelocity.addAssign(toTarget.normalize().mul(forceStrength).mul(this.uniforms.dt));
  \<close>
\<close>

definition gridTarget_force :: "uniforms \<Rightarrow> env \<Rightarrow> nat \<Rightarrow> vec3 \<Rightarrow> error + vec3" where
  "gridTarget_force u e instanceIndex particlePosition =
     (if gridWidth u = 0 then Inl DivideByZero
      else
        let gridX = instanceIndex mod gridWidth u;
            gridY = instanceIndex div gridWidth u;
            hash = real instanceIndex * 12.9898 + real gridX * 78.233 + real gridY * 37.719;
            randomX = frac hash * 2 - 1;
            randomY = frac (hash * 43758.5453) * 2 - 1;
            offsetX = randomX * gridSpacingX u * gridRandomOffset u;
            offsetY = randomY * gridSpacingY u * gridRandomOffset u;
            targetX = gridStartX u + real gridX * gridSpacingX u + offsetX;
            targetY = gridStartY u + real gridY * gridSpacingY u + offsetY;
            noiseOffset = vscale (vscale (triNoise3Dvec e (vscale particlePosition 0.92) 1.15 (time e))
                                         (gridNoiseStrength u)) 2;
            zNoiseOffset = vec_z (triNoise3Dvec e (vadd (vscale particlePosition 0.85) (vec3 100 200 300))
                                                  0.02 (time e)) * gridNoiseStrength u * 2;
            targetPos = vadd (vec3 targetX targetY (gridZ u)) noiseOffset;
            targetPos = vec3 (vec_x targetPos) (vec_y targetPos) (vec_z targetPos + zNoiseOffset);
            toTarget = vsub targetPos particlePosition;
            forceStrength = vlength toTarget * 10
        in and_then (normalize toTarget) (\<lambda>n. Inr (vscale (vscale n forceStrength) (dt u))))"

text \<open>
  Front gravity and centre gravity:
  \<^verbatim>\<open>
  particleVelocity.addAssign(vec3(0, 0, -1).mul(0.1).mul(this.uniforms.dt));
  const pn = particlePosition.div(vec3(this.uniforms.gridSize.sub(1))).sub(0.5).normalize();
  particleVelocity.subAssign(pn.mul(0.1).mul(this.uniforms.dt));
  \<close>
\<close>

definition frontGravity_force :: "uniforms \<Rightarrow> vec3" where
  "frontGravity_force u = vscale (vscale (vec3 0 0 (- 1)) 0.1) (dt u)"

definition centerGravity_force :: "uniforms \<Rightarrow> vec3 \<Rightarrow> error + vec3" where
  "centerGravity_force u particlePosition =
     and_then (normalize (vec3 (vec_x particlePosition / real_of_int (ivec_x gridSize - 1) - 0.5)
                               (vec_y particlePosition / real_of_int (ivec_y gridSize - 1) - 0.5)
                               (vec_z particlePosition / real_of_int (ivec_z gridSize - 1) - 0.5)))
       (\<lambda>pn. Inr (vscale (vscale (vscale pn 0.1) (dt u)) (- 1)))"

text \<open>
  \<^verbatim>\<open>
  If(gridMode.equal(uint(1)).and(shouldHide.not()), () => { /* image target */ })
  .Else(() => {
      If(frontGravityMode.equal(uint(1)).and(shouldHide.not()), () => { /* front gravity */ })
      .Else(() => { /* centre gravity */ });
  });
  \<close>
\<close>

definition gravity_block :: "uniforms \<Rightarrow> env \<Rightarrow> nat \<Rightarrow> vec3 \<Rightarrow> error + vec3" where
  "gravity_block u e instanceIndex particlePosition =
     (if gridMode u = 1 \<and> \<not> shouldHide u instanceIndex
      then gridTarget_force u e instanceIndex particlePosition
      else if frontGravityMode u = 1 \<and> \<not> shouldHide u instanceIndex
      then Inr (frontGravity_force u)
      else centerGravity_force u particlePosition)"

text \<open>
  Cylinder repulsion:
  \<^verbatim>\<open>
  const cylinderAxis = vec3(cylinderCenterX, cylinderCenterY, particlePosition.z);
  const toCylinderAxis = particlePosition.sub(cylinderAxis);
  const distToAxis = vec3(toCylinderAxis.x, toCylinderAxis.y, float(0)).length();
  If(distToAxis.lessThan(cylinderRadius), () => {
      const repulsionDir = vec3(toCylinderAxis.x, toCylinderAxis.y, float(0)).normalize();
      const repulsionStrength = float(1.0).sub(distToAxis.div(cylinderRadius)).mul(0.5);
      particleVelocity.addAssign(repulsionDir.mul(repulsionStrength).mul(this.uniforms.dt));
  });
  \<close>
\<close>

definition cylinder_force :: "uniforms \<Rightarrow> vec3 \<Rightarrow> error + vec3" where
  "cylinder_force u particlePosition =
     (let cylinderAxis = vec3 (cylinderCenterX u) (cylinderCenterY u) (vec_z particlePosition);
          toCylinderAxis = vsub particlePosition cylinderAxis;
          distToAxis = vlength (vec3 (vec_x toCylinderAxis) (vec_y toCylinderAxis) 0)
      in if distToAxis < cylinderRadius u
         then and_then (normalize (vec3 (vec_x toCylinderAxis) (vec_y toCylinderAxis) 0)) (\<lambda>repulsionDir.
              and_then (fdiv distToAxis (cylinderRadius u)) (\<lambda>q.
                let repulsionStrength = (1 - q) * 0.5
                in Inr (vscale (vscale repulsionDir repulsionStrength) (dt u))))
         else Inr (vec3 0 0 0))"

text \<open>
  Sphere containment; the same block is written twice, once under
  \<open>sphereContainmentMode\<close> and once under \<open>twoColorSphereMode\<close>:
  \<^verbatim>\<open>
  const sphereCenter = vec3(sphereCenterX, sphereCenterY, sphereCenterZ);
  const toCenter = particlePosition.sub(sphereCenter);
  const distToCenter = toCenter.length();
  If(distToCenter.greaterThan(this.uniforms.sphereRadius), () => {
      const towardCenter = toCenter.normalize().negate();
      const excessDistance = distToCenter.sub(this.uniforms.sphereRadius);
      const containmentStrength = excessDistance.mul(0.3);
      particleVelocity.addAssign(towardCenter.mul(containmentStrength).mul(this.uniforms.dt));
  });
  \<close>
\<close>

definition sphereCenter_of :: "uniforms \<Rightarrow> vec3" where
  "sphereCenter_of u = vec3 (sphereCenterX u) (sphereCenterY u) (sphereCenterZ u)"

definition sphere_force :: "uniforms \<Rightarrow> vec3 \<Rightarrow> error + vec3" where
  "sphere_force u particlePosition =
     (let toCenter = vsub particlePosition (sphereCenter_of u);
          distToCenter = vlength toCenter
      in if distToCenter > sphereRadius u
         then and_then (normalize toCenter) (\<lambda>n.
                let towardCenter = vscale n (- 1);
                    excessDistance = distToCenter - sphereRadius u;
                    containmentStrength = excessDistance * 0.3
                in Inr (vscale (vscale towardCenter containmentStrength) (dt u)))
         else Inr (vec3 0 0 0))"

text \<open>
  Boost easing.  The same four lines occur in every attractor block of the kernel (38
  times), each with its own boost uniforms:
  \<^verbatim>\<open>
  const boostProgress = boostTime.div(this.uniforms.colorSpheresBoostDuration).clamp(0.0, 1.0);
  const easedProgress = boostProgress.mul(boostProgress).mul(float(3.0).sub(boostProgress.mul(2.0)));
  const boostMultiplier = mix(float(1.0), float(20.0), easedProgress);
  const dampingFactor = mix(normalDamping, boostDamping, easedProgress);   // 0.98, 0.7
  \<close>
  and \<open>update\<close> sets the boost time on the host:
  \<^verbatim>\<open>
  static COLOR_SPHERES_BOOST_DURATION = 1.4;
  const elapsedSinceStart = (Date.now() - this.colorSpheresModeStartTime) / 1000;
  const remainingBoost = Math.max(0, mlsMpmSimulator.COLOR_SPHERES_BOOST_DURATION - elapsedSinceStart);
  this.uniforms.colorSpheresBoostTime.value = remainingBoost;
  \<close>
\<close>

definition COLOR_SPHERES_BOOST_DURATION :: real where
  "COLOR_SPHERES_BOOST_DURATION = 1.4"

definition remainingBoost :: "real \<Rightarrow> real" where
  "remainingBoost elapsedSinceStart = max 0 (COLOR_SPHERES_BOOST_DURATION - elapsedSinceStart)"

definition boostProgress :: "real \<Rightarrow> real \<Rightarrow> error + real" where
  "boostProgress boostTime boostDuration =
     and_then (fdiv boostTime boostDuration) (\<lambda>q. Inr (clamp q 0 1))"

definition easedProgress :: "real \<Rightarrow> real" where
  "easedProgress bp = bp * bp * (3 - bp * 2)"

definition boostMultiplier :: "real \<Rightarrow> real \<Rightarrow> error + real" where
  "boostMultiplier boostTime boostDuration =
     and_then (boostProgress boostTime boostDuration) (\<lambda>bp. Inr (mix 1 20 (easedProgress bp)))"

definition dampingFactor :: "real \<Rightarrow> real \<Rightarrow> error + real" where
  "dampingFactor boostTime boostDuration =
     and_then (boostProgress boostTime boostDuration) (\<lambda>bp. Inr (mix 0.98 0.7 (easedProgress bp)))"

text \<open>
  Colour spheres:
  \<^verbatim>\<open>
  let minDist = float(999.0).toVar();  let closestColorIndex = int(0).toVar();
  Loop({ start: 0, end: 10, ... }, ({i}) => {
      const dist = particleColor.sub(paletteColors[i]).length();
      If(dist.lessThan(minDist), () => { minDist.assign(dist); closestColorIndex.assign(i); });
  });
  const toSphere = particlePosition.sub(colorSpherePositions[closestColorIndex]);
  const distToSphere = toSphere.length();
  If(distToSphere.greaterThan(this.uniforms.colorSphereRadius), () => {
      const towardSphere = toSphere.normalize().negate();
      const excessDistance = distToSphere.sub(this.uniforms.colorSphereRadius);
      const containmentStrength = excessDistance.mul(baseStrength).mul(boostMultiplier);   // baseStrength 0.3
      particleVelocity.addAssign(towardSphere.mul(containmentStrength).mul(this.uniforms.dt));
  });
  \<close>
\<close>

definition uniform_at :: "vec3 list \<Rightarrow> nat \<Rightarrow> error + vec3" where
  "uniform_at xs i = (if i < length xs then Inr (xs ! i) else Inl OutOfBounds)"

definition closest_step :: "uniforms \<Rightarrow> vec3 \<Rightarrow> nat \<Rightarrow> real \<times> nat \<Rightarrow> error + real \<times> nat" where
  "closest_step u particleColor i acc =
     and_then (uniform_at (paletteColors u) i) (\<lambda>paletteColor.
       let dist = vlength (vsub particleColor paletteColor)
       in Inr (if dist < fst acc then (dist, i) else acc))"

definition closestColorIndex :: "uniforms \<Rightarrow> vec3 \<Rightarrow> error + nat" where
  "closestColorIndex u particleColor =
     and_then (foldM (closest_step u particleColor) [0..<10] (999, 0)) (\<lambda>r. Inr (snd r))"

definition colorSpheres_force :: "uniforms \<Rightarrow> particle \<Rightarrow> error + vec3" where
  "colorSpheres_force u p =
     and_then (closestColorIndex u (color p)) (\<lambda>k.
     and_then (uniform_at (colorSpherePositions u) k) (\<lambda>targetSphere.
       let toSphere = vsub (position p) targetSphere;
           distToSphere = vlength toSphere
       in if distToSphere > colorSphereRadius u
          then and_then (normalize toSphere) (\<lambda>n.
               and_then (boostMultiplier (colorSpheresBoostTime u) (colorSpheresBoostDuration u)) (\<lambda>bm.
                 let towardSphere = vscale n (- 1);
                     excessDistance = distToSphere - colorSphereRadius u;
                     containmentStrength = excessDistance * 0.3 * bm
                 in Inr (vscale (vscale towardSphere containmentStrength) (dt u))))
          else Inr (vec3 0 0 0)))"

text \<open>
  Ambient noise:
  \<^verbatim>\<open>
  If(gridMode.equal(uint(0)).and(frontGravityMode.equal(uint(0))), () => {
      const noise = triNoise3Dvec(particlePosition.mul(0.015), time, 0.11).sub(0.285).normalize().mul(0.28);
      particleVelocity.subAssign(noise.mul(this.uniforms.noise).mul(this.uniforms.dt));
  });
  \<close>
\<close>

definition noise_force :: "uniforms \<Rightarrow> env \<Rightarrow> vec3 \<Rightarrow> error + vec3" where
  "noise_force u e particlePosition =
     (if gridMode u = 0 \<and> frontGravityMode u = 0
      then and_then (normalize (vsub (triNoise3Dvec e (vscale particlePosition 0.015) (time e) 0.11)
                                    (vec3 0.285 0.285 0.285))) (\<lambda>n.
             Inr (vscale (vscale (vscale (vscale n 0.28) (noise u)) (dt u)) (- 1)))
      else Inr (vec3 0 0 0))"

text \<open>
  The grid velocity, gathered over the stencil:
  \<^verbatim>\<open>
  const B = mat3(0).toVar("B");
  If(gridMode.equal(uint(0)).and(shouldHide.not()), () => {
      Loop ...:
          const cellPtr = getCellPtr(cellX);
          const weightedVelocity = this.cellBufferF.element(cellPtr).xyz.mul(weight);
          const term = mat3(weightedVelocity.mul(cellDist.x), weightedVelocity.mul(cellDist.y),
                            weightedVelocity.mul(cellDist.z));
          B.addAssign(term);
          particleVelocity.addAssign(weightedVelocity);
  });
  \<close>
\<close>

definition gather_step :: "vec3 \<Rightarrow> (nat \<Rightarrow> vec4) \<Rightarrow> nat \<times> nat \<times> nat \<Rightarrow> mat3 \<times> vec3 \<Rightarrow> error + mat3 \<times> vec3" where
  "gather_step particlePosition cbF g acc =
     and_then (getCell (cellX_of particlePosition g)) (\<lambda>cellPtr.
       let cellDist = cellDist_of particlePosition g;
           weightedVelocity = vscale (vec3 (vec4_x (cbF cellPtr)) (vec4_y (cbF cellPtr)) (vec4_z (cbF cellPtr)))
                                     (weight_of particlePosition g);
           term = mat3 (vscale weightedVelocity (vec_x cellDist)) (vscale weightedVelocity (vec_y cellDist))
                       (vscale weightedVelocity (vec_z cellDist))
       in Inr (mat_add (fst acc) term, vadd (snd acc) weightedVelocity))"

definition gather_block :: "uniforms \<Rightarrow> nat \<Rightarrow> vec3 \<Rightarrow> (nat \<Rightarrow> vec4) \<Rightarrow> vec3 \<Rightarrow> error + mat3 \<times> vec3" where
  "gather_block u instanceIndex particlePosition cbF particleVelocity =
     (if gridMode u = 0 \<and> \<not> shouldHide u instanceIndex
      then foldM (gather_step particlePosition cbF) stencil (zero_mat, particleVelocity)
      else Inr (zero_mat, particleVelocity))"

text \<open>
  Pointer force:
  \<^verbatim>\<open>
  If(gridMode.equal(uint(0)).and(cursorInteraction.equal(uint(1))).and(shouldHide.not()), () => {
      const dist = cross(mouseRayDirection, particlePosition.mul(vec3(1,1,0.4)).sub(mouseRayOrigin)).length()
      const force = dist.mul(0.1).oneMinus().max(0.0).pow(2);
      particleVelocity.addAssign(this.uniforms.mouseForce.mul(1).mul(force));
      particleVelocity.mulAssign(particleMass);
  });
  \<close>
\<close>

definition mouse_block :: "uniforms \<Rightarrow> nat \<Rightarrow> particle \<Rightarrow> vec3 \<Rightarrow> vec3" where
  "mouse_block u instanceIndex p particleVelocity =
     (if gridMode u = 0 \<and> cursorInteraction u = 1 \<and> \<not> shouldHide u instanceIndex
      then let dist = vlength (cross (mouseRayDirection u)
                                     (vsub (vmul (position p) (vec3 1 1 0.4)) (mouseRayOrigin u)));
               force = (max (1 - dist * 0.1) 0) ^ 2
           in vscale (vadd particleVelocity (vscale (vscale (mouseForce u) 1) force)) (mass p)
      else particleVelocity)"

text \<open>
  Damping:
  \<^verbatim>\<open>
  If(frontGravityMode.equal(uint(1)), () => { particleVelocity.mulAssign(float(0.98)); });
  If(colorSpheresMode.equal(uint(1)).and(shouldHide.not()), () => { particleVelocity.mulAssign(dampingFactor); });
  \<close>
\<close>

definition damping_block :: "uniforms \<Rightarrow> nat \<Rightarrow> vec3 \<Rightarrow> error + vec3" where
  "damping_block u instanceIndex particleVelocity =
     (let v = (if frontGravityMode u = 1 then vscale particleVelocity 0.98 else particleVelocity)
      in if colorSpheresMode u = 1 \<and> \<not> shouldHide u instanceIndex
         then and_then (dampingFactor (colorSpheresBoostTime u) (colorSpheresBoostDuration u))
                (\<lambda>df. Inr (vscale v df))
         else Inr v)"

text \<open>
  Edge hiding:
  \<^verbatim>\<open>
  If(shouldHide, () => {
      const edgeRegionWidth = this.uniforms.gridSize.x.mul(0.1);
      const leftEdgeMax = edgeRegionWidth;
      const rightEdgeMin = this.uniforms.gridSize.x.sub(edgeRegionWidth);
      const hash = float(instanceIndex).mul(12.9898);
      const useLeftEdge = hash.fract().lessThan(0.5);
      const targetX = select(useLeftEdge, leftEdgeMax.div(2.0), rightEdgeMin.add(edgeRegionWidth.div(2.0)));
      const distFromTargetX = particlePosition.x.sub(targetX).abs();
      If(distFromTargetX.greaterThan(edgeRegionWidth.div(2.0)), () => {
          const towardTargetX = select(particlePosition.x.lessThan(targetX), float(1.0), float(-1.0));
          const excessDistance = distFromTargetX.sub(edgeRegionWidth.div(2.0));
          const containmentStrength = excessDistance.mul(0.3);
          particleVelocity.x.addAssign(towardTargetX.mul(containmentStrength).mul(this.uniforms.dt));
      });
  });
  \<close>
  \<open>gridSize\<close> is an \<open>ivec3\<close> uniform, so \<open>edgeRegionWidth\<close>, \<open>leftEdgeMax\<close>,
  \<open>rightEdgeMin\<close> and \<open>targetX\<close> are integers: the operands \<open>0.1\<close> and \<open>2.0\<close> are
  converted to \<open>int\<close> (\<open>0\<close> and \<open>2\<close>) and the products, quotients and sums are integer
  operations.  Where they meet the float \<open>particlePosition.x\<close> they are converted to float.
  The hash is a single-precision product with the single nearest to \<open>12.9898\<close>.
\<close>

definition hideHash :: "nat \<Rightarrow> real" where
  "hideHash instanceIndex = fround (fround (real instanceIndex) * fround 12.9898)"

definition useLeftEdge :: "nat \<Rightarrow> bool" where
  "useLeftEdge instanceIndex = (frac (hideHash instanceIndex) < 0.5)"

definition hide_block :: "uniforms \<Rightarrow> nat \<Rightarrow> vec3 \<Rightarrow> vec3 \<Rightarrow> vec3" where
  "hide_block u instanceIndex particlePosition particleVelocity =
     (if shouldHide u instanceIndex
      then let edgeRegionWidth = wrap32 (ivec_x gridSize * int_of_float 0.1);
               leftEdgeMax = edgeRegionWidth;
               rightEdgeMin = wrap32 (ivec_x gridSize - edgeRegionWidth);
               targetX = (if useLeftEdge instanceIndex then leftEdgeMax div int_of_float 2
                          else wrap32 (rightEdgeMin + edgeRegionWidth div int_of_float 2));
               distFromTargetX = \<bar>vec_x particlePosition - real_of_int targetX\<bar>
           in if distFromTargetX > real_of_int (edgeRegionWidth div int_of_float 2)
              then let towardTargetX = (if vec_x particlePosition < real_of_int targetX then 1 else - 1);
                       excessDistance = distFromTargetX - real_of_int (edgeRegionWidth div int_of_float 2);
                       containmentStrength = excessDistance * 0.3
                   in vec3 (vec_x particleVelocity + towardTargetX * containmentStrength * dt u)
                           (vec_y particleVelocity) (vec_z particleVelocity)
              else particleVelocity
      else particleVelocity)"

text \<open>
  Integration, the clamp to \<open>[2, gridSize - 2]\<close> and the look-ahead walls:
  \<^verbatim>\<open>
  particlePosition.addAssign(particleVelocity.mul(this.uniforms.dt));
  particlePosition.assign(clamp(particlePosition, vec3(2), this.uniforms.gridSize.sub(2)));
  const wallStiffness = 0.3;
  const xN = particlePosition.add(particleVelocity.mul(this.uniforms.dt).mul(3.0));
  const wallMin = vec3(3);  const wallMax = vec3(this.uniforms.gridSize).sub(3);
  If(xN.x.lessThan(wallMin.x), () => { particleVelocity.x.addAssign(wallMin.x.sub(xN.x).mul(wallStiffness)); });
  If(xN.x.greaterThan(wallMax.x), () => { particleVelocity.x.addAssign(wallMax.x.sub(xN.x).mul(wallStiffness)); });
  // the same for y and z
  \<close>
\<close>

definition integrate :: "uniforms \<Rightarrow> vec3 \<Rightarrow> vec3 \<Rightarrow> vec3" where
  "integrate u particlePosition particleVelocity =
     vclamp (vadd particlePosition (vscale particleVelocity (dt u))) (vec3 2 2 2)
            (vec3 (real_of_int (ivec_x gridSize - 2)) (real_of_int (ivec_y gridSize - 2))
                  (real_of_int (ivec_z gridSize - 2)))"

definition wall :: "real \<Rightarrow> real \<Rightarrow> real \<Rightarrow> real" where
  "wall xN wallMax v =
     (let wallStiffness = 0.3; wallMin = 3;
          v = (if xN < wallMin then v + (wallMin - xN) * wallStiffness else v)
      in if xN > wallMax then v + (wallMax - xN) * wallStiffness else v)"

definition wall_block :: "uniforms \<Rightarrow> vec3 \<Rightarrow> vec3 \<Rightarrow> vec3" where
  "wall_block u particlePosition particleVelocity =
     (let xN = vadd particlePosition (vscale (vscale particleVelocity (dt u)) 3)
      in vec3 (wall (vec_x xN) (real_of_int (ivec_x gridSize) - 3) (vec_x particleVelocity))
              (wall (vec_y xN) (real_of_int (ivec_y gridSize) - 3) (vec_y particleVelocity))
              (wall (vec_z xN) (real_of_int (ivec_z gridSize) - 3) (vec_z particleVelocity)))"

section \<open>One simulation step: \<open>update\<close>\<close>

text \<open>
  \<^verbatim>\<open>
  interval = Math.min(interval, 1/60);
  const effectiveSpeed = (this.uniforms.frontGravityMode.value === 1) ? 4.0 : speed;
  const dt = interval * 6 * effectiveSpeed;
  if (run) {
      const kernels = [this.kernels.clearGrid, this.kernels.p2g1, this.kernels.p2g2,
                       this.kernels.updateGrid, this.kernels.g2p];
      await this.renderer.computeAsync(kernels);
  }
  \<close>
\<close>

definition dt_of :: "real \<Rightarrow> real \<Rightarrow> nat \<Rightarrow> real" where
  "dt_of interval speed frontGravity =
     min interval (1 / 60) * 6 * (if frontGravity = 1 then 4 else speed)"

section \<open>Quantities used to state the properties\<close>

text \<open>
  The cell a stencil entry addresses, and whether the whole stencil of a position lies
  inside the grid.
\<close>

definition cell_of :: "vec3 \<Rightarrow> nat \<times> nat \<times> nat \<Rightarrow> nat" where
  "cell_of particlePosition g = nat (getCellPtr (cellX_of particlePosition g))"

definition stencil_in_grid :: "vec3 \<Rightarrow> bool" where
  "stencil_in_grid particlePosition =
     (\<forall>g \<in> set stencil. getCell (cellX_of particlePosition g) \<noteq> Inl OutOfBounds)"

text \<open>
  The exact sum of the fixed-point mass contributions that Scatter-1 adds to cell \<open>c\<close>,
  computed in unbounded integers: the value the cell would hold if the 32-bit additions
  never wrapped around.
\<close>

definition mass_contrib_at :: "vec3 \<Rightarrow> nat \<Rightarrow> nat \<times> nat \<times> nat \<Rightarrow> int" where
  "mass_contrib_at particlePosition c g =
     (if getCell (cellX_of particlePosition g) = Inr c
      then encodeFixedPoint (massContrib particlePosition g) else 0)"

definition mass_sum :: "particle list \<Rightarrow> nat \<Rightarrow> int" where
  "mass_sum ps c = (\<Sum>p\<leftarrow>ps. \<Sum>g\<leftarrow>stencil. mass_contrib_at (position p) c g)"

text \<open>
  The element of \<open>cellBufferF\<close> after the invocation of \<open>updateGrid\<close> for cell \<open>i\<close>: the
  vector it assigns, or the old element when it returned early.
\<close>

definition resolved :: "state \<Rightarrow> nat \<Rightarrow> vec4" where
  "resolved st i =
     (case updateGrid_cell i (cellBuffer st i) of Inr (Some v) \<Rightarrow> v | _ \<Rightarrow> cellBufferF st i)"

text \<open>The state after the first two and after the first three kernels of a step.\<close>

definition after_p2g1 :: "uniforms \<Rightarrow> state \<Rightarrow> state" where
  "after_p2g1 u st = projr (p2g1 u (clearGrid st))"

definition after_p2g2 :: "uniforms \<Rightarrow> state \<Rightarrow> state" where
  "after_p2g2 u st = projr (p2g2 u (after_p2g1 u st))"

section \<open>Example inputs\<close>

text \<open>
  A particle with no affine velocity, a state whose grid buffers still hold values of an
  earlier step, and uniforms of chaos mode: \<open>stiffness = 3\<close>, \<open>dynamicViscosity = 0.1\<close>,
  \<open>noise = 1\<close> and \<open>dt = 1/60 * 6 * speed\<close> with \<open>speed = 1\<close> as the configuration gives them,
  and \<open>restDensity = 1\<close>, one of the values of \<open>0.25 * max(particles / 8192, 1) * density\<close>
  that \<open>Conf.updateParams\<close> can set (\<open>32768\<close> particles at density \<open>1\<close>).  The number of
  active particles is a parameter.
\<close>

definition particle_at_rest :: "vec3 \<Rightarrow> vec3 \<Rightarrow> particle" where
  "particle_at_rest pos vel =
     \<lparr>position = pos, density = 0, velocity = vel, mass = 1, C_mat = zero_mat,
      direction = vec3 0 0 0, color = vec3 1 1 1\<rparr>"

definition stale_grid :: "particle list \<Rightarrow> state" where
  "stale_grid ps =
     \<lparr>particleBuffer = ps,
      cellBuffer = (\<lambda>i. \<lparr>cell_x = 7, cell_y = 7, cell_z = 7, cell_mass = 7\<rparr>),
      cellBufferF = (\<lambda>i. vec4 1 1 1 1)\<rparr>"

definition chaos_uniforms :: "nat \<Rightarrow> uniforms" where
  "chaos_uniforms n =
     \<lparr>numParticles = n, dt = 1 / 10, stiffness = 3, restDensity = 1, dynamicViscosity = 1 / 10,
      noise = 1, gridMode = 0, frontGravityMode = 0, cylinderMode = 0, cylinderRadius = 44,
      cylinderCenterX = 64, cylinderCenterY = 32, sphereContainmentMode = 0,
      colorSpheresMode = 0, twoColorSphereMode = 0, colorSpheresBoostTime = 0,
      colorSpheresBoostDuration = 14 / 10, sphereRadius = 25, colorSphereRadius = 7,
      sphereCenterX = 64, sphereCenterY = 32, sphereCenterZ = 32,
      colorSpherePositions = replicate 13 (vec3 0 0 0), paletteColors = replicate 13 (vec3 0 0 0),
      gridWidth = 0, gridStartX = 0, gridStartY = 0, gridSpacingX = 0, gridSpacingY = 0,
      gridZ = 32, gridRandomOffset = 1 / 2, gridNoiseStrength = 1 / 2,
      mouseRayDirection = vec3 0 0 0, mouseRayOrigin = vec3 0 0 0, mouseForce = vec3 0 0 0,
      cursorInteraction = 0, hidePercentage = 0\<rparr>"

definition lone_particle :: particle where
  "lone_particle = particle_at_rest (vec3 (21 / 2) (21 / 2) (21 / 2)) (vec3 1 0 0)"

definition lone_uniforms :: uniforms where
  "lone_uniforms = chaos_uniforms 1"

definition lone_state :: state where
  "lone_state = stale_grid [lone_particle]"

text \<open>
  \<open>510\<close> particles at the same position: the cell below them receives
  \<open>510 * 4218750 > 2147483647\<close>.
\<close>

definition crowd_uniforms :: uniforms where
  "crowd_uniforms = chaos_uniforms 510"

definition crowd_state :: state where
  "crowd_state = stale_grid (replicate 510 lone_particle)"

text \<open>
  The particles of index below \<open>numParticles\<close> that the gather kernel treats as hidden.
\<close>

definition hidden_set :: "uniforms \<Rightarrow> nat set" where
  "hidden_set u = {i. i < numParticles u \<and> shouldHide u i}"

text \<open>\<open>4096\<close> active particles, one percent of them hidden.\<close>

definition hide_uniforms :: uniforms where
  "hide_uniforms = (chaos_uniforms 4096)\<lparr>hidePercentage := 1\<rparr>"

text \<open>
  What one stencil entry of \<open>p2g1\<close> does to the cell it addresses, and what it does to a
  given cell \<open>c\<close>.
\<close>

definition scatter1_add :: "particle \<Rightarrow> nat \<times> nat \<times> nat \<Rightarrow> cell \<Rightarrow> cell" where
  "scatter1_add p g cell =
     \<lparr>cell_x = wrap32 (cell_x cell + encodeFixedPoint (vec_x (velContrib p g))),
      cell_y = wrap32 (cell_y cell + encodeFixedPoint (vec_y (velContrib p g))),
      cell_z = wrap32 (cell_z cell + encodeFixedPoint (vec_z (velContrib p g))),
      cell_mass = wrap32 (cell_mass cell + encodeFixedPoint (massContrib (position p) g))\<rparr>"

definition scatter1_at :: "particle \<Rightarrow> nat \<Rightarrow> nat \<times> nat \<times> nat \<Rightarrow> cell \<Rightarrow> cell" where
  "scatter1_at p c g cell =
     (if getCell (cellX_of (position p) g) = Inr c then scatter1_add p g cell else cell)"

text \<open>All four fields of a cell lie in the 32-bit range.\<close>

definition cell_in_range :: "cell \<Rightarrow> bool" where
  "cell_in_range cell =
     (wrap32 (cell_x cell) = cell_x cell \<and> wrap32 (cell_y cell) = cell_y cell
      \<and> wrap32 (cell_z cell) = cell_z cell \<and> wrap32 (cell_mass cell) = cell_mass cell)"

text \<open>The cell that \<open>clearGrid\<close> writes.\<close>

definition zero_cell :: cell where
  "zero_cell = \<lparr>cell_x = 0, cell_y = 0, cell_z = 0, cell_mass = 0\<rparr>"

text \<open>
  A particle half a cell inside the upper \<open>x\<close> end of the range \<open>[2, 126]\<close> that \<open>g2p\<close>
  clamps positions to, moving along \<open>x\<close>.
\<close>

definition edge_particle :: particle where
  "edge_particle = particle_at_rest (vec3 (251 / 2) (65 / 2) (65 / 2)) (vec3 1 0 0)"

definition edge_state :: state where
  "edge_state = stale_grid [edge_particle]"

definition after_updateGrid :: "uniforms \<Rightarrow> state \<Rightarrow> state" where
  "after_updateGrid u st = projr (updateGrid (after_p2g2 u st))"

text \<open>
  The mass on the whole grid, in fixed-point units: the sum of the \<open>mass\<close> fields of all
  cells.
\<close>

definition grid_mass :: "state \<Rightarrow> int" where
  "grid_mass st = (\<Sum>c<cellCount. cell_mass (cellBuffer st c))"

section \<open>Facts about the codec\<close>

subsection \<open>Rounding to single precision\<close>

lemma round_even_cases:
  "round_even y = \<lfloor>y\<rfloor> \<and> y - real_of_int \<lfloor>y\<rfloor> \<le> 1 / 2
   \<or> round_even y = \<lfloor>y\<rfloor> + 1 \<and> 1 / 2 \<le> y - real_of_int \<lfloor>y\<rfloor>"
  unfolding round_even_def Let_def by auto

lemma round_even_error: "\<bar>real_of_int (round_even y) - y\<bar> \<le> 1 / 2"
proof -
  have "real_of_int \<lfloor>y\<rfloor> \<le> y" "y < real_of_int \<lfloor>y\<rfloor> + 1" by linarith+
  with round_even_cases [of y] show ?thesis by auto
qed

lemma round_even_of_int: "round_even (real_of_int n) = n"
  unfolding round_even_def by simp

lemma round_even_ge_floor: "\<lfloor>y\<rfloor> \<le> round_even y"
  using round_even_cases [of y] by auto

lemma round_even_le_floor1: "round_even y \<le> \<lfloor>y\<rfloor> + 1"
  using round_even_cases [of y] by auto

lemma round_even_mono:
  assumes "y \<le> z"
  shows "round_even y \<le> round_even z"
proof (cases "\<lfloor>y\<rfloor> = \<lfloor>z\<rfloor>")
  case True
  then have "y - real_of_int \<lfloor>y\<rfloor> \<le> z - real_of_int \<lfloor>z\<rfloor>" using assms by simp
  then show ?thesis unfolding round_even_def Let_def True by auto
next
  case False
  then have "\<lfloor>y\<rfloor> < \<lfloor>z\<rfloor>" using floor_mono [OF assms] by simp
  then have "\<lfloor>y\<rfloor> + 1 \<le> \<lfloor>z\<rfloor>" by simp
  with round_even_le_floor1 [of y] round_even_ge_floor [of z] show ?thesis by linarith
qed

lemma round_even_nonneg: "0 \<le> y \<Longrightarrow> 0 \<le> round_even y"
  using round_even_mono [of 0 y] round_even_of_int [of 0] by simp

lemma powi2_pos: "0 < (2::real) powi k"
  by simp

lemma powi2_less_iff: "(2::real) powi a < 2 powi b \<longleftrightarrow> a < b"
proof
  assume l: "(2::real) powi a < 2 powi b"
  show "a < b"
  proof (rule ccontr)
    assume "\<not> a < b"
    then have "b \<le> a" by simp
    then have "(2::real) powi b \<le> 2 powi a" by (intro power_int_increasing) simp_all
    with l show False by simp
  qed
next
  assume "a < b"
  then show "(2::real) powi a < 2 powi b" by (intro power_int_strict_increasing) simp_all
qed

lemma powi2_le_iff: "(2::real) powi a \<le> 2 powi b \<longleftrightarrow> a \<le> b"
  using powi2_less_iff [of b a] by (auto simp: not_less [symmetric])

lemma powi2_add: "(2::real) powi (a + b) = 2 powi a * 2 powi b"
  by (rule power_int_add) simp

lemma powi2_diff: "(2::real) powi (a - b) = 2 powi a / 2 powi b"
  by (rule power_int_diff) simp

lemma fexponent_bounds:
  assumes "2 powi (- 126) \<le> \<bar>x\<bar>"
  shows "2 powi (fexponent x) \<le> \<bar>x\<bar>" and "\<bar>x\<bar> < 2 powi (fexponent x + 1)"
proof -
  have c: "2 powi (fexponent x) \<le> \<bar>x\<bar> \<and> \<bar>x\<bar> < 2 powi (fexponent x + 1)"
  proof (cases "1 \<le> \<bar>x\<bar>")
    case True
    then have e: "fexponent x = bitlen \<lfloor>\<bar>x\<bar>\<rfloor> - 1" unfolding fexponent_def using assms by simp
    define n where "n = \<lfloor>\<bar>x\<bar>\<rfloor>"
    have np: "0 < n" unfolding n_def using True by simp
    then have b1: "1 \<le> bitlen n" by (auto simp: bitlen_alt_def)
    from bitlen_bounds [OF np] have "2 ^ nat (bitlen n - 1) \<le> n" "n < 2 ^ nat (bitlen n)" by simp_all
    then have r: "(2::real) ^ nat (bitlen n - 1) \<le> real_of_int n" "real_of_int n + 1 \<le> (2::real) ^ nat (bitlen n)"
    proof -
      assume a: "2 ^ nat (bitlen n - 1) \<le> n" "n < 2 ^ nat (bitlen n)"
      from a(1) show "(2::real) ^ nat (bitlen n - 1) \<le> real_of_int n"
        by (metis of_int_le_iff of_int_numeral of_int_power)
      from a(2) have "n + 1 \<le> 2 ^ nat (bitlen n)" by simp
      then have "real_of_int (n + 1) \<le> real_of_int (2 ^ nat (bitlen n))" by (simp only: of_int_le_iff)
      then show "real_of_int n + 1 \<le> (2::real) ^ nat (bitlen n)" by simp
    qed
    have p1: "(2::real) powi (bitlen n - 1) = 2 ^ nat (bitlen n - 1)"
      using b1 by (simp add: power_int_nonneg_exp)
    have p2: "(2::real) powi (bitlen n - 1 + 1) = 2 ^ nat (bitlen n)"
      using b1 by (simp add: power_int_nonneg_exp)
    have "real_of_int n \<le> \<bar>x\<bar>" "\<bar>x\<bar> < real_of_int n + 1" unfolding n_def by linarith+
    with r show ?thesis unfolding e n_def [symmetric] p1 p2 by linarith
  next
    case False
    then have e: "fexponent x = - bitlen (\<lceil>1 / \<bar>x\<bar>\<rceil> - 1)" unfolding fexponent_def using assms by simp
    define m where "m = \<lceil>1 / \<bar>x\<bar>\<rceil> - 1"
    have xp: "0 < \<bar>x\<bar>" using assms powi2_pos [of "- 126"] by linarith
    have "1 < 1 / \<bar>x\<bar>" using False xp by simp
    then have "1 \<le> m" unfolding m_def by linarith
    then have mp: "0 < m" by simp
    then have b1: "1 \<le> bitlen m" by (auto simp: bitlen_alt_def)
    have m1: "real_of_int m < 1 / \<bar>x\<bar>" "1 / \<bar>x\<bar> \<le> real_of_int m + 1" unfolding m_def by linarith+
    from bitlen_bounds [OF mp] have a: "2 ^ nat (bitlen m - 1) \<le> m" "m < 2 ^ nat (bitlen m)" by simp_all
    from a(1) have r1: "(2::real) ^ nat (bitlen m - 1) \<le> real_of_int m"
      by (metis of_int_le_iff of_int_numeral of_int_power)
    from a(2) have "m + 1 \<le> 2 ^ nat (bitlen m)" by simp
    then have "real_of_int (m + 1) \<le> real_of_int (2 ^ nat (bitlen m))" by (simp only: of_int_le_iff)
    then have r2: "real_of_int m + 1 \<le> (2::real) ^ nat (bitlen m)" by simp
    have lo: "1 / \<bar>x\<bar> \<le> (2::real) ^ nat (bitlen m)" using m1(2) r2 by linarith
    have hi: "(2::real) ^ nat (bitlen m - 1) < 1 / \<bar>x\<bar>" using m1(1) r1 by linarith
    have p1: "(2::real) powi (- bitlen m) = 1 / 2 ^ nat (bitlen m)"
      using b1 by (simp add: power_int_minus_divide power_int_nonneg_exp)
    have p2: "(2::real) powi (- bitlen m + 1) = 1 / 2 ^ nat (bitlen m - 1)"
    proof -
      have "(2::real) powi (- bitlen m + 1) = 2 powi (- (bitlen m - 1))" by simp
      also have "\<dots> = 1 / 2 powi (bitlen m - 1)" by (rule power_int_minus_divide)
      also have "\<dots> = 1 / 2 ^ nat (bitlen m - 1)" using b1 by (simp add: power_int_nonneg_exp)
      finally show ?thesis .
    qed
    have "1 / 2 ^ nat (bitlen m) \<le> \<bar>x\<bar>"
    proof -
      have "1 \<le> 2 ^ nat (bitlen m) * \<bar>x\<bar>" using lo xp by (simp add: field_simps)
      then show ?thesis by (simp add: field_simps)
    qed
    moreover have "\<bar>x\<bar> < 1 / 2 ^ nat (bitlen m - 1)"
    proof -
      have "2 ^ nat (bitlen m - 1) * \<bar>x\<bar> < 1" using hi xp by (simp add: field_simps)
      then show ?thesis by (simp add: field_simps)
    qed
    ultimately show ?thesis unfolding e m_def [symmetric] p1 p2 by simp
  qed
  from c show "2 powi (fexponent x) \<le> \<bar>x\<bar>" and "\<bar>x\<bar> < 2 powi (fexponent x + 1)" by simp_all
qed

lemma fexponent_ge: "- 126 \<le> fexponent x"
proof (cases "2 powi (- 126) \<le> \<bar>x\<bar>")
  case True
  from True fexponent_bounds(2) [OF True] have "(2::real) powi (- 126) < 2 powi (fexponent x + 1)"
    by linarith
  then show ?thesis unfolding powi2_less_iff by simp
next
  case False
  then show ?thesis unfolding fexponent_def by simp
qed

lemma fexponent_upper: "\<bar>x\<bar> < 2 powi (fexponent x + 1)"
proof (cases "2 powi (- 126) \<le> \<bar>x\<bar>")
  case True
  then show ?thesis by (rule fexponent_bounds(2))
next
  case False
  then have e: "fexponent x = - 126" unfolding fexponent_def by simp
  have "(2::real) powi (- 126) < 2 powi (- 126 + 1)" unfolding powi2_less_iff by simp
  with False show ?thesis unfolding e by linarith
qed

lemma fexponent_eqI:
  assumes "- 126 \<le> k" and "2 powi k \<le> \<bar>x\<bar>" and "\<bar>x\<bar> < 2 powi (k + 1)"
  shows "fexponent x = k"
proof -
  have "(2::real) powi (- 126) \<le> 2 powi k" using assms(1) unfolding powi2_le_iff .
  with assms(2) have n: "2 powi (- 126) \<le> \<bar>x\<bar>" by linarith
  note b = fexponent_bounds [OF n]
  have "(2::real) powi k < 2 powi (fexponent x + 1)" using assms(2) b(2) by linarith
  then have "k < fexponent x + 1" unfolding powi2_less_iff .
  moreover have "(2::real) powi (fexponent x) < 2 powi (k + 1)" using assms(3) b(1) by linarith
  then have "fexponent x < k + 1" unfolding powi2_less_iff .
  ultimately show ?thesis by simp
qed

lemma fexponent_minus: "fexponent (- x) = fexponent x"
  unfolding fexponent_def by simp

lemma fround_zero: "fround 0 = 0"
  unfolding fround_def by simp

lemma fround_minus: "fround (- x) = - fround x"
  unfolding fround_def fexponent_minus Let_def by (simp add: sgn_minus)

lemma fround_nonneg: "0 \<le> x \<Longrightarrow> 0 \<le> fround x"
  unfolding fround_def Let_def
  by (intro mult_nonneg_nonneg) (simp_all add: round_even_nonneg)

lemma fround_nonpos: "x \<le> 0 \<Longrightarrow> fround x \<le> 0"
  using fround_nonneg [of "- x"] unfolding fround_minus by simp

lemma fround_pos_eq:
  "0 \<le> x \<Longrightarrow> fround x = real_of_int (round_even (x / 2 powi (fexponent x - 23))) * 2 powi (fexponent x - 23)"
  unfolding fround_def Let_def by (cases "x = 0") (simp_all add: round_even_of_int [of 0, simplified])

lemma fround_ulp_error: "\<bar>fround x - x\<bar> \<le> 2 powi (fexponent x - 24)"
proof -
  have p: "\<And>x. 0 \<le> x \<Longrightarrow> \<bar>fround x - x\<bar> \<le> 2 powi (fexponent x - 24)"
  proof -
    fix x :: real assume x: "0 \<le> x"
    define u :: real where "u = 2 powi (fexponent x - 23)"
    have up: "0 < u" unfolding u_def by simp
    have "\<bar>real_of_int (round_even (x / u)) - x / u\<bar> \<le> 1 / 2" by (rule round_even_error)
    then have "\<bar>real_of_int (round_even (x / u)) - x / u\<bar> * u \<le> 1 / 2 * u"
      using up by (intro mult_right_mono) simp_all
    moreover have "\<bar>real_of_int (round_even (x / u)) - x / u\<bar> * u
                   = \<bar>real_of_int (round_even (x / u)) * u - x\<bar>"
    proof -
      have "\<bar>real_of_int (round_even (x / u)) - x / u\<bar> * u
            = \<bar>(real_of_int (round_even (x / u)) - x / u) * u\<bar>"
        using up by (simp add: abs_mult)
      also have "(real_of_int (round_even (x / u)) - x / u) * u = real_of_int (round_even (x / u)) * u - x"
        using up by (simp add: algebra_simps)
      finally show ?thesis .
    qed
    moreover have "1 / 2 * u = 2 powi (fexponent x - 24)"
    proof -
      have "(2::real) powi (fexponent x - 23) = 2 powi (fexponent x - 24 + 1)" by simp
      also have "\<dots> = 2 powi (fexponent x - 24) * 2" unfolding powi2_add by simp
      finally show ?thesis unfolding u_def by simp
    qed
    ultimately show "\<bar>fround x - x\<bar> \<le> 2 powi (fexponent x - 24)"
      unfolding fround_pos_eq [OF x] u_def by simp
  qed
  show ?thesis
  proof (cases "0 \<le> x")
    case True
    then show ?thesis by (rule p)
  next
    case False
    then have "\<bar>fround (- x) - (- x)\<bar> \<le> 2 powi (fexponent (- x) - 24)" by (intro p) simp
    then show ?thesis unfolding fround_minus fexponent_minus by simp
  qed
qed

lemma fround_rel_error:
  assumes "2 powi (- 126) \<le> \<bar>x\<bar>"
  shows "\<bar>fround x - x\<bar> \<le> \<bar>x\<bar> / 16777216"
proof -
  have "(2::real) powi (fexponent x - 24) = 2 powi (fexponent x) / 2 powi 24" by (rule powi2_diff)
  also have "\<dots> = 2 powi (fexponent x) / 16777216" by simp
  also have "\<dots> \<le> \<bar>x\<bar> / 16777216"
    using fexponent_bounds(1) [OF assms] by (intro divide_right_mono) simp_all
  finally show ?thesis using fround_ulp_error [of x] by linarith
qed

lemma fround_error:
  "\<bar>fround x - x\<bar> \<le> \<bar>x\<bar> / 16777216 + 2 powi (- 150)"
proof (cases "2 powi (- 126) \<le> \<bar>x\<bar>")
  case True
  from fround_rel_error [OF this] powi2_pos [of "- 150"] show ?thesis by linarith
next
  case False
  then have e: "fexponent x = - 126" unfolding fexponent_def by simp
  have "\<bar>fround x - x\<bar> \<le> 2 powi (- 150)" using fround_ulp_error [of x] unfolding e by simp
  moreover have "0 \<le> \<bar>x\<bar> / 16777216" by simp
  ultimately show ?thesis by linarith
qed

lemma fround_exact:
  assumes "x = real_of_int n * 2 powi j" and "\<bar>n\<bar> < 16777216" and "- 149 \<le> j"
  shows "fround x = x"
proof -
  have p: "\<And>x n. x = real_of_int n * 2 powi j \<Longrightarrow> 0 \<le> n \<Longrightarrow> n < 16777216 \<Longrightarrow> fround x = x"
  proof -
    fix x :: real and n :: int
    assume x: "x = real_of_int n * 2 powi j" and n: "0 \<le> n" "n < 16777216"
    have x0: "0 \<le> x" unfolding x using n by simp
    define e where "e = fexponent x"
    have le: "e - 23 \<le> j"
    proof (cases "2 powi (- 126) \<le> \<bar>x\<bar>")
      case True
      have "2 powi e \<le> \<bar>x\<bar>" unfolding e_def by (rule fexponent_bounds(1) [OF True])
      also have "\<bar>x\<bar> = real_of_int n * 2 powi j" unfolding x using n by (simp add: abs_mult)
      also have "\<dots> < 16777216 * 2 powi j" using n by (intro mult_strict_right_mono) simp_all
      also have "\<dots> = 2 powi 24 * 2 powi j" by simp
      also have "\<dots> = 2 powi (24 + j)" unfolding powi2_add ..
      finally have "e < 24 + j" unfolding powi2_less_iff .
      then show ?thesis by simp
    next
      case False
      then have "e = - 126" unfolding e_def fexponent_def by simp
      with assms(3) show ?thesis by simp
    qed
    define k where "k = nat (j - (e - 23))"
    have jk: "j = (e - 23) + int k" unfolding k_def using le by simp
    have q: "x / 2 powi (e - 23) = real_of_int (n * 2 ^ k)"
      unfolding x jk powi2_add by simp
    have "fround x = real_of_int (n * 2 ^ k) * 2 powi (e - 23)"
      unfolding fround_pos_eq [OF x0] e_def [symmetric] q round_even_of_int ..
    also have "\<dots> = x" unfolding x jk powi2_add by simp
    finally show "fround x = x" .
  qed
  show ?thesis
  proof (cases "0 \<le> n")
    case True
    with p [OF assms(1)] assms(2) show ?thesis by simp
  next
    case False
    have "- x = real_of_int (- n) * 2 powi j" unfolding assms(1) by simp
    from p [OF this] False assms(2) have "fround (- x) = - x" by simp
    then show ?thesis unfolding fround_minus by simp
  qed
qed

lemma fround_of_int: "\<bar>n\<bar> < 16777216 \<Longrightarrow> fround (real_of_int n) = real_of_int n"
  using fround_exact [of "real_of_int n" n 0] by simp

lemma fround_binade:
  assumes "- 126 \<le> k" and "2 powi k \<le> x" and "x < 2 powi (k + 1)"
  shows "fround x = real_of_int (round_even (x / 2 powi (k - 23))) * 2 powi (k - 23)"
proof -
  have x0: "0 \<le> x" using assms(2) powi2_pos [of k] by linarith
  then have "fexponent x = k" using assms by (intro fexponent_eqI) simp_all
  then show ?thesis using fround_pos_eq [OF x0] by simp
qed

lemma ulp_scale:
  "(2::real) powi (k + 1) = 16777216 * 2 powi (k - 23)" "(2::real) powi k = 8388608 * 2 powi (k - 23)"
proof -
  have "(2::real) powi (k + 1) = 2 powi (24 + (k - 23))"
    by (rule arg_cong [of _ _ "power_int 2"]) simp
  also have "\<dots> = 2 powi 24 * 2 powi (k - 23)" by (rule powi2_add)
  finally show "(2::real) powi (k + 1) = 16777216 * 2 powi (k - 23)" by simp
  have "(2::real) powi k = 2 powi (23 + (k - 23))"
    by (rule arg_cong [of _ _ "power_int 2"]) simp
  also have "\<dots> = 2 powi 23 * 2 powi (k - 23)" by (rule powi2_add)
  finally show "(2::real) powi k = 8388608 * 2 powi (k - 23)" by simp
qed

lemma fround_pos_upper:
  assumes "0 \<le> x"
  shows "fround x \<le> 2 powi (fexponent x + 1)"
proof -
  define u :: real where "u = 2 powi (fexponent x - 23)"
  have up: "0 < u" unfolding u_def by simp
  have s: "(2::real) powi (fexponent x + 1) = 16777216 * u" unfolding u_def by (rule ulp_scale(1))
  have "x < 2 powi (fexponent x + 1)" using fexponent_upper [of x] assms by simp
  then have "x / u < 16777216" unfolding s using up by (simp add: field_simps)
  then have "x / u \<le> real_of_int 16777216" by simp
  from round_even_mono [OF this] have "round_even (x / u) \<le> 16777216"
    unfolding round_even_of_int .
  then have "real_of_int (round_even (x / u)) \<le> 16777216" by linarith
  then have "real_of_int (round_even (x / u)) * u \<le> 16777216 * u"
    using up by (intro mult_right_mono) simp_all
  then show ?thesis unfolding fround_pos_eq [OF assms] u_def [symmetric] s .
qed

lemma fround_pos_lower:
  assumes "2 powi (- 126) \<le> x"
  shows "2 powi (fexponent x) \<le> fround x"
proof -
  have x0: "0 \<le> x" using assms powi2_pos [of "- 126"] by linarith
  define u :: real where "u = 2 powi (fexponent x - 23)"
  have up: "0 < u" unfolding u_def by simp
  have s: "(2::real) powi (fexponent x) = 8388608 * u" unfolding u_def by (rule ulp_scale(2))
  have "2 powi (fexponent x) \<le> x" using fexponent_bounds(1) [of x] assms x0 by simp
  then have "real_of_int 8388608 \<le> x / u" unfolding s using up by (simp add: field_simps)
  from round_even_mono [OF this] have "8388608 \<le> round_even (x / u)"
    unfolding round_even_of_int .
  then have "8388608 \<le> real_of_int (round_even (x / u))" by linarith
  then have "8388608 * u \<le> real_of_int (round_even (x / u)) * u"
    using up by (intro mult_right_mono) simp_all
  then show ?thesis unfolding fround_pos_eq [OF x0] u_def [symmetric] s .
qed

lemma fround_mono_pos:
  assumes "0 \<le> x" and "x \<le> y"
  shows "fround x \<le> fround y"
proof -
  have y0: "0 \<le> y" using assms by simp
  have el: "fexponent x \<le> fexponent y"
  proof (rule ccontr)
    assume "\<not> fexponent x \<le> fexponent y"
    then have l: "fexponent y < fexponent x" by simp
    with fexponent_ge [of y] have "fexponent x \<noteq> - 126" by simp
    then have n: "2 powi (- 126) \<le> \<bar>x\<bar>" unfolding fexponent_def by (auto split: if_splits)
    have "2 powi (fexponent x) \<le> \<bar>x\<bar>" by (rule fexponent_bounds(1) [OF n])
    also have "\<bar>x\<bar> \<le> \<bar>y\<bar>" using assms by simp
    also have "\<bar>y\<bar> < 2 powi (fexponent y + 1)" by (rule fexponent_upper)
    finally have "fexponent x < fexponent y + 1" unfolding powi2_less_iff .
    with l show False by simp
  qed
  show ?thesis
  proof (cases "fexponent x = fexponent y")
    case True
    have "x / 2 powi (fexponent y - 23) \<le> y / 2 powi (fexponent y - 23)"
      using assms(2) by (intro divide_right_mono) simp_all
    from round_even_mono [OF this]
    have "real_of_int (round_even (x / 2 powi (fexponent y - 23))) * 2 powi (fexponent y - 23)
          \<le> real_of_int (round_even (y / 2 powi (fexponent y - 23))) * 2 powi (fexponent y - 23)"
      by (intro mult_right_mono) simp_all
    then show ?thesis unfolding fround_pos_eq [OF assms(1)] fround_pos_eq [OF y0] True .
  next
    case False
    with el have l: "fexponent x + 1 \<le> fexponent y" by simp
    with fexponent_ge [of x] have "fexponent y \<noteq> - 126" by simp
    then have "2 powi (- 126) \<le> \<bar>y\<bar>" unfolding fexponent_def by (auto split: if_splits)
    then have n: "2 powi (- 126) \<le> y" using y0 by simp
    have "fround x \<le> 2 powi (fexponent x + 1)" by (rule fround_pos_upper [OF assms(1)])
    also have "\<dots> \<le> 2 powi (fexponent y)" unfolding powi2_le_iff by (rule l)
    also have "\<dots> \<le> fround y" by (rule fround_pos_lower [OF n])
    finally show ?thesis .
  qed
qed

lemma fround_mono:
  assumes "x \<le> y"
  shows "fround x \<le> fround y"
proof -
  consider "0 \<le> x" | "x < 0" "0 \<le> y" | "y < 0" using assms by linarith
  then show ?thesis
  proof cases
    case 1
    then show ?thesis using assms by (rule fround_mono_pos)
  next
    case 2
    from fround_nonpos [of x] fround_nonneg [of y] 2 show ?thesis by simp
  next
    case 3
    then have "fround (- y) \<le> fround (- x)" using assms by (intro fround_mono_pos) simp_all
    then show ?thesis unfolding fround_minus by simp
  qed
qed

lemma fround_integer:
  assumes "8388608 \<le> \<bar>x\<bar>"
  shows "\<exists>n. fround x = real_of_int n"
proof -
  have "(2::real) powi 23 \<le> \<bar>x\<bar>" using assms by simp
  also have "\<bar>x\<bar> < 2 powi (fexponent x + 1)" by (rule fexponent_upper)
  finally have "23 \<le> fexponent x" unfolding powi2_less_iff by simp
  then have u: "(2::real) powi (fexponent x - 23) = real_of_int (2 ^ nat (fexponent x - 23))"
    by (simp add: power_int_nonneg_exp)
  define N where "N = round_even (\<bar>x\<bar> / 2 powi (fexponent x - 23)) * 2 ^ nat (fexponent x - 23)"
  have f: "fround x = sgn x * real_of_int N"
    unfolding fround_def Let_def N_def u by simp
  show ?thesis
  proof (cases "0 < x")
    case True
    then have "fround x = real_of_int N" unfolding f by simp
    then show ?thesis ..
  next
    case False
    with assms have "x < 0" by simp
    then have "fround x = real_of_int (- N)" unfolding f by simp
    then show ?thesis ..
  qed
qed

subsection \<open>Encoding and decoding\<close>

lemma ftrunc_le_abs: "\<bar>real_of_int (ftrunc r)\<bar> \<le> \<bar>r\<bar>"
proof (cases "0 \<le> r")
  case True
  then have "0 \<le> \<lfloor>r\<rfloor>" by simp
  with True show ?thesis unfolding ftrunc_def by simp
next
  case False
  then have "\<lceil>r\<rceil> \<le> 0" by (simp add: ceiling_le_iff)
  moreover have "r \<le> real_of_int \<lceil>r\<rceil>" by (rule le_of_int_ceiling)
  ultimately show ?thesis using False unfolding ftrunc_def by simp
qed

lemma ftrunc_error: "\<bar>real_of_int (ftrunc r) - r\<bar> < 1"
proof (cases "0 \<le> r")
  case True
  then show ?thesis unfolding ftrunc_def by simp linarith
next
  case False
  then show ?thesis unfolding ftrunc_def by simp linarith
qed

lemma ftrunc_nonneg: "0 \<le> r \<Longrightarrow> 0 \<le> ftrunc r"
  unfolding ftrunc_def by simp

lemma ftrunc_mono_nonneg: "0 \<le> r \<Longrightarrow> r \<le> s \<Longrightarrow> ftrunc r \<le> ftrunc s"
  unfolding ftrunc_def by (auto intro: floor_mono)

lemma ftrunc_mono: "r \<le> s \<Longrightarrow> ftrunc r \<le> ftrunc s"
proof -
  assume l: "r \<le> s"
  consider "0 \<le> r" | "r < 0" "0 \<le> s" | "s < 0" using l by linarith
  then show ?thesis
  proof cases
    case 1
    then show ?thesis using l by (rule ftrunc_mono_nonneg)
  next
    case 2
    then have a: "ftrunc r = \<lceil>r\<rceil>" "ftrunc s = \<lfloor>s\<rfloor>" unfolding ftrunc_def by simp_all
    have "\<lceil>r\<rceil> \<le> 0" using 2(1) by (simp add: ceiling_le_iff)
    moreover have "0 \<le> \<lfloor>s\<rfloor>" using 2(2) by simp
    ultimately show ?thesis unfolding a by (rule order_trans)
  next
    case 3
    with l have "r < 0" by simp
    with 3 l show ?thesis unfolding ftrunc_def by (simp add: ceiling_mono)
  qed
qed

lemma int_of_float_in_range:
  "\<bar>r\<bar> \<le> 2147483520 \<Longrightarrow> int_of_float r = ftrunc r"
proof -
  assume a: "\<bar>r\<bar> \<le> 2147483520"
  have "\<bar>real_of_int (ftrunc r)\<bar> \<le> 2147483520"
    using ftrunc_le_abs [of r] a by linarith
  then have "\<bar>ftrunc r\<bar> \<le> 2147483520" by linarith
  then show ?thesis
    unfolding int_of_float_def i32_min_def by simp
qed

lemma int_of_float_mono: "r \<le> s \<Longrightarrow> int_of_float r \<le> int_of_float s"
  unfolding int_of_float_def using ftrunc_mono [of r s] by simp

lemma encode_mono: "f \<le> g \<Longrightarrow> encodeFixedPoint f \<le> encodeFixedPoint g"
  unfolding encodeFixedPoint_def fixedPointMultiplier_def
  by (intro int_of_float_mono fround_mono) simp

lemma decode_mono: "i \<le> j \<Longrightarrow> decodeFixedPoint i \<le> decodeFixedPoint j"
  unfolding decodeFixedPoint_def fixedPointMultiplier_def
  by (intro fround_mono divide_right_mono) simp_all

lemma fround_in_range:
  assumes "\<bar>x\<bar> \<le> 2147483520"
  shows "\<bar>fround x\<bar> \<le> 2147483520"
proof -
  have e: "fround 2147483520 = 2147483520"
    using fround_exact [of 2147483520 16777215 7] by simp
  have "fround x \<le> fround 2147483520" using assms by (intro fround_mono) simp
  moreover have "fround (- 2147483520) \<le> fround x" using assms by (intro fround_mono) simp
  ultimately show ?thesis unfolding fround_minus e by simp
qed

text \<open>
  C2 fails in single precision: \<open>26.875 * 1e7 = 268750000\<close> lies between the singles
  \<open>268749984\<close> and \<open>268750016\<close>, at the same distance of both, and is rounded to the second;
  the quotient \<open>26.8750016\<close> is rounded to the single \<open>14090241 / 2^19\<close>, which is
  \<open>1.9e-6\<close> above \<open>26.875\<close>.
\<close>

theorem round_trip_error_above_1e_6:
  "- 50 \<le> (215 / 8 :: real) \<and> (215 / 8 :: real) \<le> 50
   \<and> encodeFixedPoint (215 / 8) = 268750016
   \<and> decodeFixedPoint (encodeFixedPoint (215 / 8)) = 14090241 / 524288
   \<and> 1 / 1000000 < \<bar>decodeFixedPoint (encodeFixedPoint (215 / 8)) - 215 / 8\<bar>"
  by code_simp

text \<open>
  C2 (amended).  For every real \<open>f\<close> in \<open>[-50, 50]\<close>, decoding the fixed-point encoding of
  \<open>f\<close> gives a value within \<open>1e-5\<close> of \<open>f\<close>: the truncation loses less than \<open>1e-7\<close>, and each
  of the three roundings to single precision at most one part in \<open>2^24\<close> of a value of
  magnitude \<open>50\<close>.
\<close>

theorem fixed_point_round_trip:
  assumes "- 50 \<le> f" and "f \<le> 50"
  shows "\<bar>decodeFixedPoint (encodeFixedPoint f) - f\<bar> \<le> 1 / 100000"
proof -
  define x where "x = f * 10000000"
  define p where "p = fround x"
  define i where "i = ftrunc p"
  define r where "r = fround (real_of_int i)"
  define y where "y = r / 10000000"
  define q where "q = fround y"
  have d: "(2::real) powi (- 150) \<le> 1 / 1000000000000" by (simp add: power_int_minus_divide)
  have x: "\<bar>x\<bar> \<le> 500000000" unfolding x_def using assms by (simp add: abs_if)
  have "\<bar>x\<bar> / 16777216 \<le> 500000000 / 16777216" using x by (intro divide_right_mono) simp_all
  with fround_error [of x] d have px: "\<bar>p - x\<bar> \<le> 30" unfolding p_def by simp
  with x have p: "\<bar>p\<bar> \<le> 500000030" by linarith
  then have "\<bar>p\<bar> \<le> 2147483520" by simp
  then have e: "encodeFixedPoint f = i"
    unfolding encodeFixedPoint_def fixedPointMultiplier_def i_def p_def x_def
    by (rule int_of_float_in_range)
  have ip: "\<bar>real_of_int i - p\<bar> < 1" unfolding i_def by (rule ftrunc_error)
  have i: "\<bar>real_of_int i\<bar> \<le> 500000030" using ftrunc_le_abs [of p] p unfolding i_def by linarith
  have "\<bar>real_of_int i\<bar> / 16777216 \<le> 500000030 / 16777216"
    using i by (intro divide_right_mono) simp_all
  with fround_error [of "real_of_int i"] d have ri: "\<bar>r - real_of_int i\<bar> \<le> 30"
    unfolding r_def by simp
  with i have r: "\<bar>r\<bar> \<le> 500000060" by linarith
  have y: "\<bar>y\<bar> \<le> 500000060 / 10000000" unfolding y_def using r by simp
  then have "\<bar>y\<bar> / 16777216 \<le> 500000060 / 10000000 / 16777216"
    by (intro divide_right_mono) simp_all
  with fround_error [of y] d have qy: "\<bar>q - y\<bar> \<le> 3 / 1000000" unfolding q_def by simp
  have "\<bar>r - x\<bar> \<le> 61" using ri ip px by linarith
  then have "\<bar>(r - x) / 10000000\<bar> \<le> 61 / 10000000" by simp
  moreover have "(r - x) / 10000000 = y - f" unfolding y_def x_def by (simp add: field_simps)
  ultimately have yf: "\<bar>y - f\<bar> \<le> 61 / 10000000" by simp
  have "decodeFixedPoint (encodeFixedPoint f) = q"
    by (simp add: e decodeFixedPoint_def fixedPointMultiplier_def q_def y_def r_def)
  with qy yf show ?thesis by linarith
qed

theorem fixed_point_round_trip_witness:
  "- 50 \<le> (215 / 8 :: real) \<and> (215 / 8 :: real) \<le> 50
   \<and> \<bar>decodeFixedPoint (encodeFixedPoint (215 / 8)) - 215 / 8\<bar> \<le> 1 / 100000"
  using fixed_point_round_trip [of "215 / 8"] by simp

section \<open>Auxiliary facts\<close>

lemma and_then_Inr [simp]: "and_then (Inr v) f = f v"
  by (simp add: and_then_def)

lemma and_then_Inl [simp]: "and_then (Inl e) f = Inl e"
  by (simp add: and_then_def)

lemma and_then_eq_Inr: "and_then m f = Inr r \<longleftrightarrow> (\<exists>v. m = Inr v \<and> f v = Inr r)"
  by (cases m) auto

lemma foldM_append: "foldM f (xs @ ys) s = and_then (foldM f xs s) (foldM f ys)"
  by (induction xs arbitrary: s) (auto split: sum.splits)

lemma foldM_single: "foldM f [a] s = f a s"
  by (simp split: sum.splits)

lemma foldM_snoc: "foldM f (xs @ [a]) s = and_then (foldM f xs s) (f a)"
  unfolding foldM_append by (cases "foldM f xs s") (simp_all add: foldM_single del: foldM.simps)

lemma wrap32_id: "- 2147483648 \<le> n \<Longrightarrow> n \<le> 2147483647 \<Longrightarrow> wrap32 n = n"
  unfolding wrap32_def by simp

lemma wrap32_range: "- 2147483648 \<le> wrap32 n \<and> wrap32 n \<le> 2147483647"
  unfolding wrap32_def
  using pos_mod_bound [of 4294967296 "n + 2147483648"] pos_mod_sign [of 4294967296 "n + 2147483648"]
  by simp

lemma wrap32_add_left: "wrap32 (wrap32 a + b) = wrap32 (a + b)"
proof -
  have "(wrap32 a + b + 2147483648) mod 4294967296
        = ((a + 2147483648) mod 4294967296 + b) mod 4294967296"
    unfolding wrap32_def by (simp add: algebra_simps)
  also have "\<dots> = (a + 2147483648 + b) mod 4294967296"
    by (rule mod_add_left_eq)
  also have "\<dots> = (a + b + 2147483648) mod 4294967296"
    by (simp add: algebra_simps)
  finally show ?thesis unfolding wrap32_def [of "wrap32 a + b"] wrap32_def [of "a + b"] by simp
qed

lemma wrap32_idem: "wrap32 (wrap32 a) = wrap32 a"
  using wrap32_add_left [of a 0] by simp

lemma clearGrid_fold:
  "n \<le> cellCount \<Longrightarrow>
   fold clearGrid_kernel [0..<n] st =
     st\<lparr>cellBuffer := (\<lambda>i. if i < n then \<lparr>cell_x = 0, cell_y = 0, cell_z = 0, cell_mass = 0\<rparr> else cellBuffer st i),
        cellBufferF := (\<lambda>i. if i < n then vec4 0 0 0 0 else cellBufferF st i)\<rparr>"
proof (induction n)
  case 0
  then show ?case by simp
next
  case (Suc n)
  then have "n < cellCount" by simp
  have ih: "fold clearGrid_kernel [0..<n] st =
     st\<lparr>cellBuffer := (\<lambda>i. if i < n then \<lparr>cell_x = 0, cell_y = 0, cell_z = 0, cell_mass = 0\<rparr> else cellBuffer st i),
        cellBufferF := (\<lambda>i. if i < n then vec4 0 0 0 0 else cellBufferF st i)\<rparr>"
    using Suc by simp
  have "fold clearGrid_kernel [0..<Suc n] st = clearGrid_kernel n (fold clearGrid_kernel [0..<n] st)"
    by simp
  also have "\<dots> = st\<lparr>cellBuffer := (\<lambda>i. if i < Suc n then \<lparr>cell_x = 0, cell_y = 0, cell_z = 0, cell_mass = 0\<rparr> else cellBuffer st i),
        cellBufferF := (\<lambda>i. if i < Suc n then vec4 0 0 0 0 else cellBufferF st i)\<rparr>"
    unfolding ih clearGrid_kernel_def using \<open>n < cellCount\<close>
    by (simp add: fun_eq_iff less_Suc_eq)
  finally show ?case .
qed

lemma clearGrid_eq:
  "clearGrid st =
     st\<lparr>cellBuffer := (\<lambda>i. if i < cellCount then \<lparr>cell_x = 0, cell_y = 0, cell_z = 0, cell_mass = 0\<rparr> else cellBuffer st i),
        cellBufferF := (\<lambda>i. if i < cellCount then vec4 0 0 0 0 else cellBufferF st i)\<rparr>"
  unfolding clearGrid_def by (rule clearGrid_fold) simp

text \<open>
  The encoder does not round to the nearest integer: \<open>6e-8 * 1e7 = 0.6\<close> is encoded as
  \<open>0\<close>, while the nearest integer is \<open>1\<close>.
\<close>

theorem encode_is_not_round:
  "encodeFixedPoint (6 / 100000000) = 0 \<and> round (6 / 100000000 * fixedPointMultiplier) = 1"
  by code_simp

lemma encode_in_range:
  assumes "\<bar>f * 10000000\<bar> \<le> 2147483520"
  shows "encodeFixedPoint f = ftrunc (fround (f * 10000000))"
  unfolding encodeFixedPoint_def fixedPointMultiplier_def
  by (rule int_of_float_in_range [OF fround_in_range [OF assms]])

lemma fround_half: "\<bar>x\<bar> \<le> 1 / 2 \<Longrightarrow> \<bar>fround x\<bar> \<le> 1 / 2"
proof -
  assume a: "\<bar>x\<bar> \<le> 1 / 2"
  have h: "fround (1 / 2) = 1 / 2" using fround_exact [of "1 / 2" 1 "- 1"] by simp
  have "fround x \<le> fround (1 / 2)" "fround (- (1 / 2)) \<le> fround x"
    using a by (intro fround_mono; simp)+
  then show ?thesis unfolding fround_minus h by simp
qed

lemma ftrunc_small: "\<bar>r\<bar> < 1 \<Longrightarrow> ftrunc r = 0"
  unfolding ftrunc_def by (auto simp: floor_eq_iff ceiling_eq_iff)

lemma encode_error:
  assumes "\<bar>f * 10000000\<bar> \<le> 2147483520"
  shows "\<bar>real_of_int (encodeFixedPoint f) - f * 10000000\<bar> < 1 + \<bar>f * 10000000\<bar> / 16777216"
proof -
  define x where "x = f * 10000000"
  have e: "encodeFixedPoint f = ftrunc (fround x)" unfolding x_def by (rule encode_in_range [OF assms])
  show ?thesis unfolding x_def [symmetric] e
  proof (cases "2 powi (- 126) \<le> \<bar>x\<bar>")
    case True
    from fround_rel_error [OF True] ftrunc_error [of "fround x"]
    show "\<bar>real_of_int (ftrunc (fround x)) - x\<bar> < 1 + \<bar>x\<bar> / 16777216" by linarith
  next
    case False
    have "(2::real) powi (- 126) \<le> 2 powi (- 1)" unfolding powi2_le_iff by simp
    with False have x1: "\<bar>x\<bar> \<le> 1 / 2" by simp
    have "\<bar>fround x\<bar> < 1" using fround_half [OF x1] by linarith
    then have "ftrunc (fround x) = 0" by (rule ftrunc_small)
    moreover have "0 \<le> \<bar>x\<bar> / 16777216" by simp
    ultimately show "\<bar>real_of_int (ftrunc (fround x)) - x\<bar> < 1 + \<bar>x\<bar> / 16777216"
      using x1 by simp
  qed
qed

lemma encode_nearest:
  assumes "\<bar>f * 10000000\<bar> \<le> 2147483520" and "8388608 \<le> \<bar>f * 10000000\<bar>"
  shows "\<bar>real_of_int (encodeFixedPoint f) - f * 10000000\<bar> \<le> \<bar>f * 10000000\<bar> / 16777216"
proof -
  define x where "x = f * 10000000"
  have e: "encodeFixedPoint f = ftrunc (fround x)" unfolding x_def by (rule encode_in_range [OF assms(1)])
  from fround_integer [of x] assms(2) obtain n where n: "fround x = real_of_int n"
    unfolding x_def by blast
  have t: "ftrunc (fround x) = n" unfolding n ftrunc_def by simp
  have "(2::real) powi (- 126) \<le> 2 powi 23" unfolding powi2_le_iff by simp
  with assms(2) have "2 powi (- 126) \<le> \<bar>x\<bar>" unfolding x_def by simp
  from fround_rel_error [OF this] have "\<bar>real_of_int n - x\<bar> \<le> \<bar>x\<bar> / 16777216" unfolding n .
  moreover have "encodeFixedPoint f = n" using e t by simp
  ultimately show ?thesis by (simp add: x_def)
qed

lemma decode_zero: "decodeFixedPoint 0 = 0"
  unfolding decodeFixedPoint_def by (simp add: fround_zero)

lemma decode_error:
  "\<bar>decodeFixedPoint i - real_of_int i / 10000000\<bar> \<le> \<bar>real_of_int i / 10000000\<bar> / 8000000"
proof (cases "i = 0")
  case True
  then show ?thesis by (simp add: decode_zero)
next
  case False
  define a where "a = real_of_int i"
  define r where "r = fround a"
  define y where "y = r / 10000000"
  define b where "b = \<bar>a\<bar> / 10000000"
  have a1: "1 \<le> \<bar>a\<bar>" unfolding a_def using False by (simp add: abs_if)
  have "(2::real) powi (- 126) \<le> 2 powi 0" unfolding powi2_le_iff by simp
  with a1 have "2 powi (- 126) \<le> \<bar>a\<bar>" by simp
  from fround_rel_error [OF this] have ra: "\<bar>r - a\<bar> \<le> \<bar>a\<bar> / 16777216" unfolding r_def .
  then have rlo: "1 / 2 \<le> \<bar>r\<bar>" using a1 by linarith
  have ay: "\<bar>y\<bar> = \<bar>r\<bar> / 10000000" unfolding y_def by simp
  have "(2::real) powi (- 126) \<le> 2 powi (- 25)" unfolding powi2_le_iff by simp
  also have "\<dots> \<le> 1 / 2 / 10000000" by (simp add: power_int_minus_divide)
  also have "\<dots> \<le> \<bar>y\<bar>" unfolding ay using rlo by simp
  finally have "2 powi (- 126) \<le> \<bar>y\<bar>" .
  from fround_rel_error [OF this] have qy: "\<bar>fround y - y\<bar> \<le> \<bar>y\<bar> / 16777216" .
  have yb: "\<bar>y\<bar> \<le> b + b / 16777216"
  proof -
    have "\<bar>r\<bar> \<le> \<bar>a\<bar> + \<bar>a\<bar> / 16777216" using ra by linarith
    then have "\<bar>r\<bar> / 10000000 \<le> (\<bar>a\<bar> + \<bar>a\<bar> / 16777216) / 10000000"
      by (intro divide_right_mono) simp_all
    then show ?thesis unfolding ay b_def by (simp add: add_divide_distrib)
  qed
  have ya: "\<bar>y - a / 10000000\<bar> \<le> b / 16777216"
  proof -
    have "y - a / 10000000 = (r - a) / 10000000" unfolding y_def by (simp add: diff_divide_distrib)
    then have "\<bar>y - a / 10000000\<bar> = \<bar>(r - a) / 10000000\<bar>" by (rule arg_cong)
    also have "\<dots> = \<bar>r - a\<bar> / 10000000" by simp
    also have "\<dots> \<le> \<bar>a\<bar> / 16777216 / 10000000" using ra by (intro divide_right_mono) simp_all
    finally show ?thesis unfolding b_def by simp
  qed
  have b0: "0 \<le> b" unfolding b_def by simp
  have "\<bar>y\<bar> / 16777216 \<le> (b + b / 16777216) / 16777216"
    using yb by (intro divide_right_mono) simp_all
  then have "\<bar>y\<bar> / 16777216 \<le> b / 16777216 + b / 281474976710656"
    by (simp add: add_divide_distrib)
  with qy have "\<bar>fround y - y\<bar> \<le> b / 16777216 + b / 281474976710656" by linarith
  with ya b0 have "\<bar>fround y - a / 10000000\<bar> \<le> b / 8000000" by linarith
  moreover have "decodeFixedPoint i = fround y"
    unfolding decodeFixedPoint_def fixedPointMultiplier_def y_def r_def a_def ..
  moreover have "\<bar>real_of_int i / 10000000\<bar> = b" unfolding b_def a_def by simp
  ultimately show ?thesis unfolding a_def by simp
qed

lemma codec_values:
  "encodeFixedPoint 0 = 0" "encodeFixedPoint (1 / 512) = 19531" "encodeFixedPoint (3 / 256) = 117187"
  "encodeFixedPoint (9 / 128) = 703125" "encodeFixedPoint (27 / 64) = 4218750"
  "decodeFixedPoint 0 = 0" "decodeFixedPoint 703125 = 9 / 128" "decodeFixedPoint 10000000 = 1"
  by code_simp+

text \<open>
  C6 (amended).  For \<open>f * 1e7\<close> of magnitude at most \<open>2147483520\<close> the encoder maps \<open>f\<close> to
  the product \<open>f * 1e7\<close> rounded to the nearest single and then truncated toward zero: an
  integer less than \<open>1 + |f * 1e7| / 2^24\<close> away from \<open>f * 1e7\<close>.  From \<open>2^23\<close> on the
  rounded product is an integer, nothing is truncated, and the result is within
  \<open>|f * 1e7| / 2^24\<close> of \<open>f * 1e7\<close>.  The decoder maps an integer \<open>i\<close> to \<open>i / 1e7\<close> up to two
  roundings to single precision, within one part in \<open>8000000\<close>.
\<close>

theorem encoder_rounds_to_single_then_truncates:
  assumes "\<bar>f * 10000000\<bar> \<le> 2147483520"
  shows "encodeFixedPoint f = ftrunc (fround (f * 10000000))
       \<and> \<bar>real_of_int (encodeFixedPoint f) - f * 10000000\<bar> < 1 + \<bar>f * 10000000\<bar> / 16777216
       \<and> (8388608 \<le> \<bar>f * 10000000\<bar> \<longrightarrow>
            \<bar>real_of_int (encodeFixedPoint f) - f * 10000000\<bar> \<le> \<bar>f * 10000000\<bar> / 16777216)
       \<and> \<bar>decodeFixedPoint i - real_of_int i / 10000000\<bar> \<le> \<bar>real_of_int i / 10000000\<bar> / 8000000"
  using encode_in_range [OF assms] encode_error [OF assms] encode_nearest [OF assms] decode_error [of i]
  by blast

theorem encoder_rounds_to_single_then_truncates_witness:
  "\<bar>215 / 8 * 10000000 :: real\<bar> \<le> 2147483520 \<and> 8388608 \<le> \<bar>215 / 8 * 10000000 :: real\<bar>
   \<and> \<bar>real_of_int (encodeFixedPoint (215 / 8)) - 215 / 8 * 10000000\<bar> \<le> \<bar>215 / 8 * 10000000\<bar> / 16777216
   \<and> \<bar>decodeFixedPoint 7 - real_of_int 7 / 10000000\<bar> \<le> \<bar>real_of_int 7 / 10000000\<bar> / 8000000"
  using encoder_rounds_to_single_then_truncates [of "215 / 8" 7, THEN conjunct2] by simp

lemma weights_axis_sum: "w0 d + w1 d + w2 d = 1"
  unfolding w0_def w1_def w2_def by (simp add: algebra_simps)

lemma stencil_eq: "stencil = [(0,0,0),(0,0,1),(0,0,2),(0,1,0),(0,1,1),(0,1,2),(0,2,0),(0,2,1),(0,2,2),
  (1,0,0),(1,0,1),(1,0,2),(1,1,0),(1,1,1),(1,1,2),(1,2,0),(1,2,1),(1,2,2),
  (2,0,0),(2,0,1),(2,0,2),(2,1,0),(2,1,1),(2,1,2),(2,2,0),(2,2,1),(2,2,2)]"
  unfolding stencil_def by simp

lemma stencil_sum: "(\<Sum>g\<leftarrow>stencil. massContrib p g) = 1"
proof -
  let ?d = "cellDiff_of p"
  have "(\<Sum>g\<leftarrow>stencil. massContrib p g)
      = (w0 (vec_x ?d) + w1 (vec_x ?d) + w2 (vec_x ?d))
        * (w0 (vec_y ?d) + w1 (vec_y ?d) + w2 (vec_y ?d))
        * (w0 (vec_z ?d) + w1 (vec_z ?d) + w2 (vec_z ?d))"
    unfolding stencil_eq massContrib_def weight_of_def weights_def
    by (simp add: algebra_simps)
  then show ?thesis by (simp add: weights_axis_sum)
qed

lemma stencil_weights_sum_to_one:
  "vec_x (weights (cellDiff_of pos) 0) + vec_x (weights (cellDiff_of pos) 1)
     + vec_x (weights (cellDiff_of pos) 2) = 1
   \<and> vec_y (weights (cellDiff_of pos) 0) + vec_y (weights (cellDiff_of pos) 1)
     + vec_y (weights (cellDiff_of pos) 2) = 1
   \<and> vec_z (weights (cellDiff_of pos) 0) + vec_z (weights (cellDiff_of pos) 1)
     + vec_z (weights (cellDiff_of pos) 2) = 1
   \<and> (\<Sum>g\<leftarrow>stencil. massContrib pos g) = 1"
  by (simp add: weights_def weights_axis_sum stencil_sum)

lemma w0_nonneg: "0 \<le> w0 d" unfolding w0_def by simp
lemma w2_nonneg: "0 \<le> w2 d" unfolding w2_def by simp
lemma w1_pos: "- 1/2 \<le> d \<Longrightarrow> d < 1/2 \<Longrightarrow> 1/2 \<le> w1 d"
proof -
  assume a: "- 1/2 \<le> d" "d < 1/2"
  then have "\<bar>d\<bar> \<le> 1/2" by (simp add: abs_if)
  then have "\<bar>d\<bar> * \<bar>d\<bar> \<le> (1/2) * (1/2)" by (intro mult_mono) auto
  then have "d * d \<le> 1/4" by (simp add: abs_mult_self_eq)
  then show ?thesis unfolding w1_def by simp
qed

lemma p2g1_cell_mass:
  assumes "p2g1_cell p g cb = Inr cb'"
  shows "cell_mass (cb' c) =
           (if getCell (cellX_of (position p) g) = Inr c
            then wrap32 (cell_mass (cb c) + encodeFixedPoint (massContrib (position p) g))
            else cell_mass (cb c))"
  using assms unfolding p2g1_cell_def
  by (auto simp: and_then_eq_Inr atomicAdd_mass_def atomicAdd_x_def atomicAdd_y_def atomicAdd_z_def)

lemma p2g1_cells_mass:
  assumes "foldM (p2g1_cell p) gs cb = Inr cb'"
      and "wrap32 (cell_mass (cb c)) = cell_mass (cb c)"
  shows "cell_mass (cb' c)
         = wrap32 (cell_mass (cb c) + (\<Sum>g\<leftarrow>gs. mass_contrib_at (position p) c g))"
  using assms
proof (induction gs arbitrary: cb)
  case Nil
  then show ?case by simp
next
  case (Cons g gs)
  from Cons.prems(1) obtain cb1 where
    s1: "p2g1_cell p g cb = Inr cb1" and s2: "foldM (p2g1_cell p) gs cb1 = Inr cb'"
    by (auto split: sum.splits)
  have m1: "cell_mass (cb1 c) = wrap32 (cell_mass (cb c) + mass_contrib_at (position p) c g)"
    using p2g1_cell_mass [OF s1, of c] Cons.prems(2) by (simp add: mass_contrib_at_def)
  then have "wrap32 (cell_mass (cb1 c)) = cell_mass (cb1 c)" by (simp add: wrap32_idem)
  from Cons.IH [OF s2 this] show ?case
    by (simp add: m1 wrap32_add_left add.assoc)
qed

lemma p2g1_kernel_effect:
  assumes "p2g1_kernel u i st = Inr st'" and "i < numParticles u"
      and "wrap32 (cell_mass (cellBuffer st c)) = cell_mass (cellBuffer st c)"
  shows "i < length (particleBuffer st)"
    and "particleBuffer st' = particleBuffer st"
    and "cellBufferF st' = cellBufferF st"
    and "cell_mass (cellBuffer st' c)
         = wrap32 (cell_mass (cellBuffer st c)
                   + (\<Sum>g\<leftarrow>stencil. mass_contrib_at (position (particleBuffer st ! i)) c g))"
proof -
  from assms(1,2) obtain p cb where
    p: "particle_at st i = Inr p" and
    cb: "foldM (p2g1_cell p) stencil (cellBuffer st) = Inr cb" and
    st': "st' = st\<lparr>cellBuffer := cb\<rparr>"
    unfolding p2g1_kernel_def by (auto simp: and_then_eq_Inr)
  from p show l: "i < length (particleBuffer st)"
    unfolding particle_at_def by (simp split: if_splits)
  from p l have pe: "p = particleBuffer st ! i" unfolding particle_at_def by simp
  show "particleBuffer st' = particleBuffer st" "cellBufferF st' = cellBufferF st"
    using st' by simp_all
  show "cell_mass (cellBuffer st' c)
         = wrap32 (cell_mass (cellBuffer st c)
                   + (\<Sum>g\<leftarrow>stencil. mass_contrib_at (position (particleBuffer st ! i)) c g))"
    using p2g1_cells_mass [OF cb assms(3)] st' pe by simp
qed

lemma p2g1_fold_effect:
  assumes "foldM (p2g1_kernel u) [0..<n] st = Inr st'" and "n \<le> numParticles u"
      and "wrap32 (cell_mass (cellBuffer st c)) = cell_mass (cellBuffer st c)"
  shows "n \<le> length (particleBuffer st) \<and> particleBuffer st' = particleBuffer st
       \<and> cellBufferF st' = cellBufferF st
       \<and> cell_mass (cellBuffer st' c)
         = wrap32 (cell_mass (cellBuffer st c) + mass_sum (take n (particleBuffer st)) c)"
  using assms
proof (induction n arbitrary: st')
  case 0
  then show ?case by (simp add: mass_sum_def)
next
  case (Suc n)
  from Suc.prems(1) obtain st1 where
    s1: "foldM (p2g1_kernel u) [0..<n] st = Inr st1" and
    s2: "p2g1_kernel u n st1 = Inr st'"
    by (auto simp: foldM_snoc and_then_eq_Inr)
  from Suc.prems(2) have n: "n \<le> numParticles u" "n < numParticles u" by simp_all
  from Suc.IH [OF s1 n(1) Suc.prems(3)] have
    ih: "n \<le> length (particleBuffer st)" "particleBuffer st1 = particleBuffer st"
      "cellBufferF st1 = cellBufferF st"
      "cell_mass (cellBuffer st1 c)
         = wrap32 (cell_mass (cellBuffer st c) + mass_sum (take n (particleBuffer st)) c)"
    by simp_all
  have w: "wrap32 (cell_mass (cellBuffer st1 c)) = cell_mass (cellBuffer st1 c)"
    by (simp add: ih(4) wrap32_idem)
  note k = p2g1_kernel_effect [OF s2 n(2) w]
  from k(1) ih(2) have l: "n < length (particleBuffer st)" by simp
  have t: "mass_sum (take (Suc n) (particleBuffer st)) c
           = mass_sum (take n (particleBuffer st)) c
             + (\<Sum>g\<leftarrow>stencil. mass_contrib_at (position (particleBuffer st ! n)) c g)"
    using l by (simp add: take_Suc_conv_app_nth mass_sum_def)
  show ?case
    using l k(2,3,4) ih(2,3) by (simp add: ih(4) t wrap32_add_left add.assoc)
qed

lemma getCell_cases: "getCell ipos = Inl OutOfBounds \<or> getCell ipos = Inr (nat (getCellPtr ipos))"
  unfolding getCell_def by simp

lemma getCell_ok: "getCell (cellX_of pos g) \<noteq> Inl OutOfBounds \<Longrightarrow> getCell (cellX_of pos g) = Inr (cell_of pos g)"
  using getCell_cases [of "cellX_of pos g"] unfolding cell_of_def by auto

lemma getCell_lt: "getCell ipos = Inr c \<Longrightarrow> c < cellCount"
  unfolding getCell_def by (auto split: if_splits)

lemma p2g1_cells_in_grid:
  "foldM (p2g1_cell p) gs cb = Inr cb' \<Longrightarrow> g \<in> set gs \<Longrightarrow>
     getCell (cellX_of (position p) g) \<noteq> Inl OutOfBounds"
proof (induction gs arbitrary: cb)
  case Nil
  then show ?case by simp
next
  case (Cons a gs)
  from Cons.prems(1) obtain cb1 where
    s1: "p2g1_cell p a cb = Inr cb1" and s2: "foldM (p2g1_cell p) gs cb1 = Inr cb'"
    by (auto split: sum.splits)
  show ?case
  proof (cases "g = a")
    case True
    with s1 show ?thesis unfolding p2g1_cell_def by (auto simp: and_then_eq_Inr)
  next
    case False
    with Cons.prems(2) have "g \<in> set gs" by simp
    from Cons.IH [OF s2 this] show ?thesis .
  qed
qed

lemma p2g1_kernel_in_grid:
  assumes "p2g1_kernel u i st = Inr st'" and "i < numParticles u"
  shows "stencil_in_grid (position (particleBuffer st ! i))"
proof -
  from assms obtain p cb where
    p: "particle_at st i = Inr p" and
    cb: "foldM (p2g1_cell p) stencil (cellBuffer st) = Inr cb"
    unfolding p2g1_kernel_def by (auto simp: and_then_eq_Inr)
  from p have "p = particleBuffer st ! i" unfolding particle_at_def by (simp split: if_splits)
  with p2g1_cells_in_grid [OF cb] show ?thesis unfolding stencil_in_grid_def by simp
qed

lemma p2g1_kernel_pb:
  "p2g1_kernel u i st = Inr st' \<Longrightarrow> particleBuffer st' = particleBuffer st"
  unfolding p2g1_kernel_def by (auto simp: and_then_eq_Inr split: if_splits)

lemma p2g1_fold_pb:
  "foldM (p2g1_kernel u) is st = Inr st' \<Longrightarrow> particleBuffer st' = particleBuffer st"
proof (induction "is" arbitrary: st)
  case Nil
  then show ?case by simp
next
  case (Cons a "is")
  then show ?case by (auto split: sum.splits dest: p2g1_kernel_pb)
qed

lemma p2g1_fold_in_grid:
  assumes "foldM (p2g1_kernel u) [0..<n] st = Inr st'" and "n \<le> numParticles u" and "i < n"
  shows "stencil_in_grid (position (particleBuffer st ! i))"
  using assms
proof (induction n arbitrary: st')
  case 0
  then show ?case by simp
next
  case (Suc n)
  from Suc.prems(1) obtain st1 where
    s1: "foldM (p2g1_kernel u) [0..<n] st = Inr st1" and
    s2: "p2g1_kernel u n st1 = Inr st'"
    by (auto simp: foldM_snoc and_then_eq_Inr)
  show ?case
  proof (cases "i = n")
    case True
    from Suc.prems(2) have "n < numParticles u" by simp
    from p2g1_kernel_in_grid [OF s2 this] p2g1_fold_pb [OF s1] True show ?thesis by simp
  next
    case False
    with Suc.prems have "i < n" "n \<le> numParticles u" by simp_all
    from Suc.IH [OF s1 this(2) this(1)] show ?thesis .
  qed
qed

lemma density_fold:
  assumes "\<forall>g \<in> set gs. getCell (cellX_of pos g) \<noteq> Inl OutOfBounds"
  shows "foldM (density_add pos cb) gs acc
         = Inr (acc + (\<Sum>g\<leftarrow>gs. decodeFixedPoint (cell_mass (cb (cell_of pos g))) * weight_of pos g))"
  using assms
proof (induction gs arbitrary: acc)
  case Nil
  then show ?case by simp
next
  case (Cons g gs)
  then have "getCell (cellX_of pos g) = Inr (cell_of pos g)" by (simp add: getCell_ok)
  then have "density_add pos cb g acc
             = Inr (acc + decodeFixedPoint (cell_mass (cb (cell_of pos g))) * weight_of pos g)"
    unfolding density_add_def by simp
  with Cons show ?case by (simp add: add.assoc)
qed

lemma gather_density_eq:
  "stencil_in_grid pos \<Longrightarrow>
   gather_density pos cb
     = Inr (\<Sum>g\<leftarrow>stencil. decodeFixedPoint (cell_mass (cb (cell_of pos g))) * weight_of pos g)"
  unfolding gather_density_def stencil_in_grid_def by (simp add: density_fold)

lemma cellDiff_bounds:
  "- 1 / 2 \<le> vec_x (cellDiff_of pos) \<and> vec_x (cellDiff_of pos) < 1 / 2
   \<and> - 1 / 2 \<le> vec_y (cellDiff_of pos) \<and> vec_y (cellDiff_of pos) < 1 / 2
   \<and> - 1 / 2 \<le> vec_z (cellDiff_of pos) \<and> vec_z (cellDiff_of pos) < 1 / 2"
  unfolding cellDiff_of_def
  using frac_ge_0 [of "vec_x pos"] frac_lt_1 [of "vec_x pos"]
        frac_ge_0 [of "vec_y pos"] frac_lt_1 [of "vec_y pos"]
        frac_ge_0 [of "vec_z pos"] frac_lt_1 [of "vec_z pos"]
  by simp

lemma w1_nonneg: "- 1 / 2 \<le> d \<Longrightarrow> d < 1 / 2 \<Longrightarrow> 0 \<le> w1 d"
  using w1_pos [of d] by simp

lemma weights_nonneg:
  "0 \<le> vec_x (weights (cellDiff_of pos) g) \<and> 0 \<le> vec_y (weights (cellDiff_of pos) g)
   \<and> 0 \<le> vec_z (weights (cellDiff_of pos) g)"
  using cellDiff_bounds [of pos]
  unfolding weights_def by (simp add: Let_def w0_nonneg w1_nonneg w2_nonneg)

lemma weight_of_nonneg: "0 \<le> weight_of pos g"
proof -
  obtain gx gy gz where g: "g = (gx, gy, gz)" by (cases g) auto
  show ?thesis unfolding g weight_of_def
    using weights_nonneg [of pos gx] weights_nonneg [of pos gy] weights_nonneg [of pos gz]
    by simp
qed

lemma weight_of_centre: "1 / 8 \<le> weight_of pos (1, 1, 1)"
proof -
  let ?d = "cellDiff_of pos"
  have a: "1 / 2 \<le> w1 (vec_x ?d)" "1 / 2 \<le> w1 (vec_y ?d)" "1 / 2 \<le> w1 (vec_z ?d)"
    using cellDiff_bounds [of pos] w1_pos [of "vec_x ?d"] w1_pos [of "vec_y ?d"]
      w1_pos [of "vec_z ?d"] by auto
  have "(1 / 2) * (1 / 2) \<le> w1 (vec_x ?d) * w1 (vec_y ?d)"
    using a by (intro mult_mono) simp_all
  then have "(1 / 2) * (1 / 2) * (1 / 2) \<le> w1 (vec_x ?d) * w1 (vec_y ?d) * w1 (vec_z ?d)"
    using a by (intro mult_mono) simp_all
  then show ?thesis unfolding weight_of_def weights_def by simp
qed

lemma encode_zero: "encodeFixedPoint 0 = 0"
  by code_simp

lemma encode_nonneg: "0 \<le> f \<Longrightarrow> 0 \<le> encodeFixedPoint f"
  using encode_mono [of 0 f] by (simp add: encode_zero)

lemma encode_ge:
  assumes "1 / 8 \<le> f" shows "1250000 \<le> encodeFixedPoint f"
proof -
  have "encodeFixedPoint (1 / 8) = 1250000" by code_simp
  with encode_mono [OF assms] show ?thesis by simp
qed

lemma encode_le:
  assumes "0 \<le> f" and "f * 10000000 \<le> 2147483520"
  shows "real_of_int (encodeFixedPoint f) \<le> f * 10000000 + f * 10000000 / 16777216"
proof -
  define x where "x = f * 10000000"
  have x0: "0 \<le> x" unfolding x_def using assms(1) by simp
  then have "\<bar>f * 10000000\<bar> \<le> 2147483520" using assms(2) unfolding x_def by simp
  then have e: "encodeFixedPoint f = ftrunc (fround x)" unfolding x_def by (rule encode_in_range)
  have p0: "0 \<le> fround x" by (rule fround_nonneg [OF x0])
  then have t: "real_of_int (ftrunc (fround x)) \<le> fround x" unfolding ftrunc_def by simp
  show ?thesis unfolding x_def [symmetric] e
  proof (cases "2 powi (- 126) \<le> \<bar>x\<bar>")
    case True
    have "\<bar>fround x - x\<bar> \<le> x / 16777216" using fround_rel_error [OF True] x0 by simp
    then have "fround x \<le> x + x / 16777216" by linarith
    with t show "real_of_int (ftrunc (fround x)) \<le> x + x / 16777216" by linarith
  next
    case False
    have "(2::real) powi (- 126) \<le> 2 powi (- 1)" unfolding powi2_le_iff by simp
    with False have x1: "\<bar>x\<bar> \<le> 1 / 2" by simp
    have "\<bar>fround x\<bar> < 1" using fround_half [OF x1] by linarith
    then have "ftrunc (fround x) = 0" by (rule ftrunc_small)
    with x0 show "real_of_int (ftrunc (fround x)) \<le> x + x / 16777216" by simp
  qed
qed

lemma mass_contrib_at_nonneg: "0 \<le> mass_contrib_at pos c g"
  unfolding mass_contrib_at_def massContrib_def by (simp add: encode_nonneg weight_of_nonneg)

lemma sum_list_member_le:
  fixes f :: "'a \<Rightarrow> 'b::linordered_idom"
  assumes "\<forall>x \<in> set xs. 0 \<le> f x" and "a \<in> set xs"
  shows "f a \<le> (\<Sum>x\<leftarrow>xs. f x)"
  using assms
proof (induction xs)
  case Nil
  then show ?case by simp
next
  case (Cons x xs)
  have nn: "0 \<le> (\<Sum>x\<leftarrow>xs. f x)" using Cons.prems(1) by (intro sum_list_nonneg) auto
  show ?case
  proof (cases "a = x")
    case True
    with nn show ?thesis by simp
  next
    case False
    with Cons have "f a \<le> (\<Sum>x\<leftarrow>xs. f x)" by simp
    moreover have "0 \<le> f x" using Cons.prems(1) by simp
    ultimately show ?thesis by simp
  qed
qed

lemma stencil_mass_nonneg: "0 \<le> (\<Sum>g\<leftarrow>stencil. mass_contrib_at pos c g)"
  by (intro sum_list_nonneg) (auto simp: mass_contrib_at_nonneg)

lemma mass_sum_nonneg: "0 \<le> mass_sum ps c"
  unfolding mass_sum_def by (intro sum_list_nonneg) (auto simp: stencil_mass_nonneg)

lemma mass_sum_ge:
  assumes "p \<in> set ps" and "g \<in> set stencil"
  shows "mass_contrib_at (position p) c g \<le> mass_sum ps c"
proof -
  have "mass_contrib_at (position p) c g \<le> (\<Sum>g\<leftarrow>stencil. mass_contrib_at (position p) c g)"
    using assms(2) by (intro sum_list_member_le) (auto simp: mass_contrib_at_nonneg)
  also have "\<dots> \<le> mass_sum ps c"
    unfolding mass_sum_def
    using assms(1)
    by (intro sum_list_member_le [where f = "\<lambda>p. \<Sum>g\<leftarrow>stencil. mass_contrib_at (position p) c g"])
       (auto simp: stencil_mass_nonneg)
  finally show ?thesis .
qed

lemma of_int_sum_list_map:
  "real_of_int (\<Sum>x\<leftarrow>xs. f x) = (\<Sum>x\<leftarrow>xs. real_of_int (f x))"
  by (induction xs) simp_all

lemma weight_of_le_one: "g \<in> set stencil \<Longrightarrow> weight_of pos g \<le> 1"
proof -
  assume g: "g \<in> set stencil"
  have "weight_of pos g \<le> (\<Sum>g\<leftarrow>stencil. weight_of pos g)"
    by (rule sum_list_member_le [OF _ g]) (simp add: weight_of_nonneg)
  also have "\<dots> = 1" using stencil_sum [of pos] unfolding massContrib_def .
  finally show ?thesis .
qed

lemma stencil_mass_le: "(\<Sum>g\<leftarrow>stencil. mass_contrib_at pos c g) \<le> 10000000"
proof -
  have "real_of_int (\<Sum>g\<leftarrow>stencil. mass_contrib_at pos c g)
        = (\<Sum>g\<leftarrow>stencil. real_of_int (mass_contrib_at pos c g))"
    by (rule of_int_sum_list_map)
  also have "\<dots> \<le> (\<Sum>g\<leftarrow>stencil. massContrib pos g * (10000000 + 10000000 / 16777216))"
  proof (intro sum_list_mono)
    fix g assume g: "g \<in> set stencil"
    have w: "0 \<le> massContrib pos g" "massContrib pos g \<le> 1"
      unfolding massContrib_def using weight_of_nonneg [of pos g] weight_of_le_one [OF g] by simp_all
    then have "massContrib pos g * 10000000 \<le> 2147483520" by simp
    from encode_le [OF w(1) this] w(1)
    show "real_of_int (mass_contrib_at pos c g) \<le> massContrib pos g * (10000000 + 10000000 / 16777216)"
      unfolding mass_contrib_at_def by (simp add: algebra_simps)
  qed
  also have "\<dots> = (\<Sum>g\<leftarrow>stencil. massContrib pos g) * (10000000 + 10000000 / 16777216)"
    by (rule sum_list_mult_const)
  also have "\<dots> = 10000000 + 10000000 / 16777216" unfolding stencil_sum by simp
  finally have "real_of_int (\<Sum>g\<leftarrow>stencil. mass_contrib_at pos c g) < 10000001" by simp
  then show ?thesis by linarith
qed

lemma mass_sum_le: "mass_sum ps c \<le> 10000000 * int (length ps)"
proof (induction ps)
  case Nil
  then show ?case by (simp add: mass_sum_def)
next
  case (Cons p ps)
  have "mass_sum (p # ps) c = (\<Sum>g\<leftarrow>stencil. mass_contrib_at (position p) c g) + mass_sum ps c"
    by (simp add: mass_sum_def)
  with Cons stencil_mass_le [of "position p" c] show ?case by simp
qed

lemma clearGrid_fields:
  "particleBuffer (clearGrid st) = particleBuffer st"
  "c < cellCount \<Longrightarrow> cellBuffer (clearGrid st) c = \<lparr>cell_x = 0, cell_y = 0, cell_z = 0, cell_mass = 0\<rparr>"
  "c < cellCount \<Longrightarrow> cellBufferF (clearGrid st) c = vec4 0 0 0 0"
  by (simp_all add: clearGrid_eq)

lemma scatter1_mass:
  assumes "p2g1 u (clearGrid st0) = Inr st1" and "c < cellCount"
      and "mass_sum (take (numParticles u) (particleBuffer st0)) c \<le> i32_max"
  shows "cell_mass (cellBuffer st1 c) = mass_sum (take (numParticles u) (particleBuffer st0)) c"
proof -
  have w: "wrap32 (cell_mass (cellBuffer (clearGrid st0) c)) = cell_mass (cellBuffer (clearGrid st0) c)"
    using assms(2) by (simp add: clearGrid_fields wrap32_def)
  from p2g1_fold_effect [OF assms(1) [unfolded p2g1_def] order_refl w]
  have "cell_mass (cellBuffer st1 c)
        = wrap32 (mass_sum (take (numParticles u) (particleBuffer st0)) c)"
    using assms(2) by (simp add: clearGrid_fields)
  moreover have "0 \<le> mass_sum (take (numParticles u) (particleBuffer st0)) c"
    by (rule mass_sum_nonneg)
  ultimately show ?thesis using assms(3) by (simp add: wrap32_id i32_max_def)
qed

lemma scatter1_facts:
  assumes "p2g1 u (clearGrid st0) = Inr st1"
  shows "numParticles u \<le> length (particleBuffer st0)"
    and "particleBuffer st1 = particleBuffer st0"
    and "cellBufferF st1 = cellBufferF (clearGrid st0)"
    and "i < numParticles u \<Longrightarrow> stencil_in_grid (position (particleBuffer st0 ! i))"
proof -
  have w: "wrap32 (cell_mass (cellBuffer (clearGrid st0) 0)) = cell_mass (cellBuffer (clearGrid st0) 0)"
    by (simp add: clearGrid_fields wrap32_def cellCount_def)
  from p2g1_fold_effect [OF assms [unfolded p2g1_def] order_refl w]
  show "numParticles u \<le> length (particleBuffer st0)"
    and "particleBuffer st1 = particleBuffer st0"
    and "cellBufferF st1 = cellBufferF (clearGrid st0)"
    by (simp_all add: clearGrid_fields)
  show "i < numParticles u \<Longrightarrow> stencil_in_grid (position (particleBuffer st0 ! i))"
    using p2g1_fold_in_grid [OF assms [unfolded p2g1_def] order_refl, of i]
    by (simp add: clearGrid_fields)
qed

lemma centre_in_stencil: "(1, 1, 1) \<in> set stencil"
  unfolding stencil_eq by simp

lemma decode_nonneg: "0 \<le> m \<Longrightarrow> 0 \<le> decodeFixedPoint m"
  using decode_mono [of 0 m] by (simp add: decode_zero)

lemma density_lower:
  assumes "\<forall>g \<in> set stencil. 0 \<le> cell_mass (cb (cell_of pos g))"
      and "1250000 \<le> cell_mass (cb (cell_of pos (1, 1, 1)))"
  shows "1 / 64 \<le> (\<Sum>g\<leftarrow>stencil. decodeFixedPoint (cell_mass (cb (cell_of pos g))) * weight_of pos g)"
proof -
  let ?f = "\<lambda>g. decodeFixedPoint (cell_mass (cb (cell_of pos g))) * weight_of pos g"
  have nn: "\<forall>g \<in> set stencil. 0 \<le> ?f g"
    using assms(1) by (auto intro!: mult_nonneg_nonneg decode_nonneg weight_of_nonneg)
  have "decodeFixedPoint 1250000 = 1 / 8" by code_simp
  then have "1 / 8 \<le> decodeFixedPoint (cell_mass (cb (cell_of pos (1, 1, 1))))"
    using decode_mono [OF assms(2)] by simp
  then have "(1 / 8) * (1 / 8) \<le> ?f (1, 1, 1)"
    using weight_of_centre [of pos] by (intro mult_mono) simp_all
  also have "\<dots> \<le> (\<Sum>g\<leftarrow>stencil. ?f g)"
    by (rule sum_list_member_le [OF nn centre_in_stencil])
  finally show ?thesis by simp
qed

lemma scatter1_density:
  assumes "p2g1 u (clearGrid st0) = Inr st1"
      and "\<forall>c<cellCount. mass_sum (take (numParticles u) (particleBuffer st0)) c \<le> i32_max"
      and "k < numParticles u"
  shows "\<exists>d. gather_density (position (particleBuffer st0 ! k)) (cellBuffer st1) = Inr d \<and> 1 / 64 \<le> d"
proof -
  let ?ps = "take (numParticles u) (particleBuffer st0)"
  let ?p = "particleBuffer st0 ! k"
  let ?pos = "position ?p"
  note f = scatter1_facts [OF assms(1)]
  have ig: "stencil_in_grid ?pos" using f(4) assms(3) by simp
  have pin: "?p \<in> set ?ps" using assms(3) f(1) by (auto simp: in_set_conv_nth intro!: exI [of _ k])
  have cell: "\<And>g. g \<in> set stencil \<Longrightarrow> getCell (cellX_of ?pos g) = Inr (cell_of ?pos g)"
    using ig unfolding stencil_in_grid_def by (simp add: getCell_ok)
  have lt: "\<And>g. g \<in> set stencil \<Longrightarrow> cell_of ?pos g < cellCount"
    using cell getCell_lt by blast
  have m: "\<And>g. g \<in> set stencil \<Longrightarrow> cell_mass (cellBuffer st1 (cell_of ?pos g)) = mass_sum ?ps (cell_of ?pos g)"
    using scatter1_mass [OF assms(1)] lt assms(2) by simp
  have nn: "\<forall>g \<in> set stencil. 0 \<le> cell_mass (cellBuffer st1 (cell_of ?pos g))"
    using m by (simp add: mass_sum_nonneg)
  have "mass_contrib_at ?pos (cell_of ?pos (1,1,1)) (1,1,1) \<le> mass_sum ?ps (cell_of ?pos (1,1,1))"
    by (rule mass_sum_ge [OF pin centre_in_stencil])
  moreover have "mass_contrib_at ?pos (cell_of ?pos (1,1,1)) (1,1,1) = encodeFixedPoint (weight_of ?pos (1,1,1))"
    unfolding mass_contrib_at_def massContrib_def using cell [OF centre_in_stencil] by simp
  moreover have "1250000 \<le> encodeFixedPoint (weight_of ?pos (1,1,1))"
    by (rule encode_ge [OF weight_of_centre])
  ultimately have c: "1250000 \<le> cell_mass (cellBuffer st1 (cell_of ?pos (1,1,1)))"
    using m [OF centre_in_stencil] by simp
  show ?thesis
    using gather_density_eq [OF ig, of "cellBuffer st1"] density_lower [OF nn c] by simp
qed

lemma p2g2_cell_mass:
  "p2g2_cell pos eq g cb = Inr cb' \<Longrightarrow> cell_mass (cb' c) = cell_mass (cb c)"
  unfolding p2g2_cell_def
  by (auto simp: and_then_eq_Inr Let_def atomicAdd_x_def atomicAdd_y_def atomicAdd_z_def)

lemma p2g2_cells_mass:
  "foldM (p2g2_cell pos eq) gs cb = Inr cb' \<Longrightarrow> cell_mass (cb' c) = cell_mass (cb c)"
proof (induction gs arbitrary: cb)
  case Nil
  then show ?case by simp
next
  case (Cons g gs)
  from Cons.prems obtain cb1 where
    s1: "p2g2_cell pos eq g cb = Inr cb1" and s2: "foldM (p2g2_cell pos eq) gs cb1 = Inr cb'"
    by (auto split: sum.splits)
  from Cons.IH [OF s2] p2g2_cell_mass [OF s1] show ?case by simp
qed

lemma p2g2_cells_total:
  "\<forall>g \<in> set gs. getCell (cellX_of pos g) \<noteq> Inl OutOfBounds \<Longrightarrow>
   \<exists>cb'. foldM (p2g2_cell pos eq) gs cb = Inr cb'"
proof (induction gs arbitrary: cb)
  case Nil
  then show ?case by simp
next
  case (Cons g gs)
  then have "getCell (cellX_of pos g) = Inr (cell_of pos g)" by (simp add: getCell_ok)
  then obtain cb1 where "p2g2_cell pos eq g cb = Inr cb1"
    unfolding p2g2_cell_def by (simp add: Let_def)
  with Cons show ?case by simp
qed

lemma p2g2_kernel_effect:
  assumes "p2g2_kernel u i st = Inr st'"
  shows "cellBufferF st' = cellBufferF st"
    and "cell_mass (cellBuffer st' c) = cell_mass (cellBuffer st c)"
    and "map position (particleBuffer st') = map position (particleBuffer st)"
proof -
  show "cellBufferF st' = cellBufferF st"
    using assms unfolding p2g2_kernel_def by (auto simp: and_then_eq_Inr split: if_splits)
  show "cell_mass (cellBuffer st' c) = cell_mass (cellBuffer st c)"
    using assms unfolding p2g2_kernel_def
    by (auto simp: and_then_eq_Inr p2g2_cells_mass split: if_splits)
  show "map position (particleBuffer st') = map position (particleBuffer st)"
  proof (cases "i \<ge> numParticles u")
    case True
    with assms show ?thesis unfolding p2g2_kernel_def by simp
  next
    case False
    with assms obtain p dens where
      p: "particle_at st i = Inr p" and
      pb: "particleBuffer st' = (particleBuffer st)[i := p\<lparr>density := dens\<rparr>]"
      unfolding p2g2_kernel_def by (auto simp: and_then_eq_Inr)
    from p have "i < length (particleBuffer st)" "p = particleBuffer st ! i"
      unfolding particle_at_def by (simp_all split: if_splits)
    then show ?thesis unfolding pb by (simp add: map_update list_update_same_conv)
  qed
qed

lemma p2g2_fold_effect:
  "foldM (p2g2_kernel u) is st = Inr st' \<Longrightarrow>
     cellBufferF st' = cellBufferF st
     \<and> cell_mass (cellBuffer st' c) = cell_mass (cellBuffer st c)
     \<and> map position (particleBuffer st') = map position (particleBuffer st)"
proof (induction "is" arbitrary: st)
  case Nil
  then show ?case by simp
next
  case (Cons i "is")
  from Cons.prems obtain st1 where
    s1: "p2g2_kernel u i st = Inr st1" and s2: "foldM (p2g2_kernel u) is st1 = Inr st'"
    by (auto split: sum.splits)
  from Cons.IH [OF s2] p2g2_kernel_effect [OF s1] show ?case by simp
qed

lemma eq16Term0_total:
  assumes "0 < dens" and "0 < restDensity u"
  shows "\<exists>m. eq16Term0_of u dens dudv = Inr m"
proof -
  have "0 \<le> dens / restDensity u" using assms by simp
  then show ?thesis
    using assms unfolding eq16Term0_of_def pressure_of_def fdiv_def pow5_def
    by (simp add: not_less)
qed

lemma gather_density_masses:
  assumes "stencil_in_grid pos" and "\<And>c. cell_mass (cb' c) = cell_mass (cb c)"
  shows "gather_density pos cb' = gather_density pos cb"
  using assms by (simp add: gather_density_eq)

lemma p2g2_kernel_total:
  assumes "i < length (particleBuffer st)"
      and "stencil_in_grid (position (particleBuffer st ! i))"
      and "gather_density (position (particleBuffer st ! i)) (cellBuffer st) = Inr d"
      and "0 < d" and "0 < restDensity u"
  shows "\<exists>st'. p2g2_kernel u i st = Inr st'"
proof (cases "i \<ge> numParticles u")
  case True
  then show ?thesis unfolding p2g2_kernel_def by simp
next
  case False
  let ?p = "particleBuffer st ! i"
  have p: "particle_at st i = Inr ?p" using assms(1) unfolding particle_at_def by simp
  from eq16Term0_total [OF assms(4,5)] obtain m where m: "eq16Term0_of u d (C_mat ?p) = Inr m" by blast
  from p2g2_cells_total [of stencil "position ?p" m "cellBuffer st"] assms(2)
  obtain cb where cb: "foldM (p2g2_cell (position ?p) m) stencil (cellBuffer st) = Inr cb"
    unfolding stencil_in_grid_def by blast
  show ?thesis unfolding p2g2_kernel_def using False p assms(3) m cb by simp
qed

lemma p2g2_fold_total:
  assumes "n \<le> length (particleBuffer st)" and "0 < restDensity u"
      and "\<forall>i<n. stencil_in_grid (position (particleBuffer st ! i))
              \<and> (\<exists>d. gather_density (position (particleBuffer st ! i)) (cellBuffer st) = Inr d \<and> 0 < d)"
  shows "\<exists>st'. foldM (p2g2_kernel u) [0..<n] st = Inr st'"
  using assms
proof (induction n)
  case 0
  then show ?case by simp
next
  case (Suc n)
  then obtain st1 where s1: "foldM (p2g2_kernel u) [0..<n] st = Inr st1" by auto
  have e: "\<And>c. cell_mass (cellBuffer st1 c) = cell_mass (cellBuffer st c)"
    "map position (particleBuffer st1) = map position (particleBuffer st)"
    using p2g2_fold_effect [OF s1] by simp_all
  from e(2) have len: "length (particleBuffer st1) = length (particleBuffer st)"
    by (metis length_map)
  have n: "n < length (particleBuffer st)" using Suc.prems(1) by simp
  have pos: "position (particleBuffer st1 ! n) = position (particleBuffer st ! n)"
    using e(2) n len by (metis nth_map)
  from Suc.prems(3) obtain d where
    ig: "stencil_in_grid (position (particleBuffer st ! n))" and
    d: "gather_density (position (particleBuffer st ! n)) (cellBuffer st) = Inr d" "0 < d"
    by auto
  have "gather_density (position (particleBuffer st ! n)) (cellBuffer st1) = Inr d"
    using gather_density_masses [OF ig, of "cellBuffer st1" "cellBuffer st"] e(1) d(1) by simp
  with p2g2_kernel_total [of n st1 d u] n len pos ig d(2) Suc.prems(2)
  obtain st' where "p2g2_kernel u n st1 = Inr st'" by auto
  with s1 show ?case by (simp add: foldM_snoc)
qed

lemma updateGrid_cell_total: "\<exists>r. updateGrid_cell i cell = Inr r"
  unfolding updateGrid_cell_def fdiv_def by (simp add: Let_def)

lemma updateGrid_fold:
  "n \<le> cellCount \<Longrightarrow>
   foldM updateGrid_kernel [0..<n] st
     = Inr (st\<lparr>cellBufferF := (\<lambda>i. if i < n then resolved st i else cellBufferF st i)\<rparr>)"
proof (induction n)
  case 0
  then show ?case by simp
next
  case (Suc n)
  let ?st1 = "st\<lparr>cellBufferF := (\<lambda>i. if i < n then resolved st i else cellBufferF st i)\<rparr>"
  from Suc have s1: "foldM updateGrid_kernel [0..<n] st = Inr ?st1" and n: "n < cellCount" by simp_all
  obtain r where r: "updateGrid_cell n (cellBuffer st n) = Inr r"
    using updateGrid_cell_total by blast
  have "updateGrid_kernel n ?st1
        = Inr (st\<lparr>cellBufferF := (\<lambda>i. if i < Suc n then resolved st i else cellBufferF st i)\<rparr>)"
    unfolding updateGrid_kernel_def using n r
    by (cases r) (auto simp: resolved_def fun_eq_iff less_Suc_eq)
  with s1 show ?case by (simp add: foldM_snoc)
qed

lemma updateGrid_eq:
  "updateGrid st = Inr (st\<lparr>cellBufferF := (\<lambda>i. if i < cellCount then resolved st i else cellBufferF st i)\<rparr>)"
  unfolding updateGrid_def by (rule updateGrid_fold) simp

lemma int_of_float_floor: "0 \<le> r \<Longrightarrow> r \<le> 2147483520 \<Longrightarrow> int_of_float r = \<lfloor>r\<rfloor>"
  using int_of_float_in_range [of r] unfolding ftrunc_def by simp

lemma cell_index_range:
  fixes a b c :: int
  assumes "1 \<le> a" "a \<le> 126" "1 \<le> b" "b \<le> 62" "1 \<le> c" "c \<le> 62" "gx \<le> 2" "gy \<le> 2" "gz \<le> 2"
  shows "wrap32 (a - 1) = a - 1" "wrap32 (b - 1) = b - 1" "wrap32 (c - 1) = c - 1"
    "wrap32 (a - 1 + int gx) = a - 1 + int gx" "wrap32 (b - 1 + int gy) = b - 1 + int gy"
    "wrap32 (c - 1 + int gz) = c - 1 + int gz"
    "0 \<le> (a - 1 + int gx) * 4096 + (b - 1 + int gy) * 64 + (c - 1 + int gz)"
    "(a - 1 + int gx) * 4096 + (b - 1 + int gy) * 64 + (c - 1 + int gz) < 524288"
    "wrap32 ((a - 1 + int gx) * 4096 + (b - 1 + int gy) * 64 + (c - 1 + int gz))
     = (a - 1 + int gx) * 4096 + (b - 1 + int gy) * 64 + (c - 1 + int gz)"
  using assms by (auto intro!: wrap32_id)

lemma cellX_in_grid:
  assumes "1 \<le> vec_x pos" "vec_x pos < 127" "1 \<le> vec_y pos" "vec_y pos < 63"
      and "1 \<le> vec_z pos" "vec_z pos < 63" and "gx \<le> 2" "gy \<le> 2" "gz \<le> 2"
  shows "cellX_of pos (gx, gy, gz)
         = ivec3 (\<lfloor>vec_x pos\<rfloor> - 1 + int gx) (\<lfloor>vec_y pos\<rfloor> - 1 + int gy) (\<lfloor>vec_z pos\<rfloor> - 1 + int gz)"
    and "getCell (cellX_of pos (gx, gy, gz))
         = Inr (nat ((\<lfloor>vec_x pos\<rfloor> - 1 + int gx) * 4096 + (\<lfloor>vec_y pos\<rfloor> - 1 + int gy) * 64
                     + (\<lfloor>vec_z pos\<rfloor> - 1 + int gz)))"
proof -
  define a b c where "a = \<lfloor>vec_x pos\<rfloor>" and "b = \<lfloor>vec_y pos\<rfloor>" and "c = \<lfloor>vec_z pos\<rfloor>"
  have f: "1 \<le> a" "a \<le> 126" "1 \<le> b" "b \<le> 62" "1 \<le> c" "c \<le> 62"
    unfolding a_def b_def c_def using assms(1-6) by (simp_all add: le_floor_iff floor_le_iff)
  note r = cell_index_range [OF f assms(7-9)]
  have i: "int_of_float (vec_x pos) = a" "int_of_float (vec_y pos) = b" "int_of_float (vec_z pos) = c"
    unfolding a_def b_def c_def using assms by (simp_all add: int_of_float_floor)
  have ci: "cellIndex_of pos = ivec3 (a - 1) (b - 1) (c - 1)"
    unfolding cellIndex_of_def i by (simp add: r)
  have cx: "cellX_of pos (gx, gy, gz) = ivec3 (a - 1 + int gx) (b - 1 + int gy) (c - 1 + int gz)"
    unfolding cellX_of_def ci by (simp add: r)
  then show "cellX_of pos (gx, gy, gz)
         = ivec3 (\<lfloor>vec_x pos\<rfloor> - 1 + int gx) (\<lfloor>vec_y pos\<rfloor> - 1 + int gy) (\<lfloor>vec_z pos\<rfloor> - 1 + int gz)"
    unfolding a_def b_def c_def .
  have "getCellPtr (cellX_of pos (gx, gy, gz))
        = (a - 1 + int gx) * 4096 + (b - 1 + int gy) * 64 + (c - 1 + int gz)"
  proof -
    have e: "(a - 1 + int gx) * 64 * 64 + (b - 1 + int gy) * 64 + (c - 1 + int gz)
             = (a - 1 + int gx) * 4096 + (b - 1 + int gy) * 64 + (c - 1 + int gz)"
      by simp
    show ?thesis unfolding cx getCellPtr_def gridSize_def by (simp only: ivec3.sel e r(9))
  qed
  then have "getCell (cellX_of pos (gx, gy, gz))
        = Inr (nat ((a - 1 + int gx) * 4096 + (b - 1 + int gy) * 64 + (c - 1 + int gz)))"
    unfolding getCell_def cellCount_def using r(7,8) by simp
  then show "getCell (cellX_of pos (gx, gy, gz))
         = Inr (nat ((\<lfloor>vec_x pos\<rfloor> - 1 + int gx) * 4096 + (\<lfloor>vec_y pos\<rfloor> - 1 + int gy) * 64
                     + (\<lfloor>vec_z pos\<rfloor> - 1 + int gz)))"
    unfolding a_def b_def c_def .
qed

lemma stencil_in_grid_range:
  assumes "1 \<le> vec_x pos" "vec_x pos < 127" "1 \<le> vec_y pos" "vec_y pos < 63"
      and "1 \<le> vec_z pos" "vec_z pos < 63"
  shows "stencil_in_grid pos"
  unfolding stencil_in_grid_def stencil_eq
  using assms by (simp add: cellX_in_grid(2))

lemma p2g1_cells_total:
  "\<forall>g \<in> set gs. getCell (cellX_of (position p) g) \<noteq> Inl OutOfBounds \<Longrightarrow>
   \<exists>cb'. foldM (p2g1_cell p) gs cb = Inr cb'"
proof (induction gs arbitrary: cb)
  case Nil
  then show ?case by simp
next
  case (Cons g gs)
  then have "getCell (cellX_of (position p) g) = Inr (cell_of (position p) g)" by (simp add: getCell_ok)
  then obtain cb1 where "p2g1_cell p g cb = Inr cb1"
    unfolding p2g1_cell_def by simp
  with Cons show ?case by simp
qed

lemma p2g1_kernel_total:
  assumes "i < length (particleBuffer st)" and "stencil_in_grid (position (particleBuffer st ! i))"
  shows "\<exists>st'. p2g1_kernel u i st = Inr st'"
proof -
  let ?p = "particleBuffer st ! i"
  have p: "particle_at st i = Inr ?p" using assms(1) unfolding particle_at_def by simp
  from p2g1_cells_total [of stencil ?p "cellBuffer st"] assms(2)
  obtain cb where "foldM (p2g1_cell ?p) stencil (cellBuffer st) = Inr cb"
    unfolding stencil_in_grid_def by blast
  with p show ?thesis unfolding p2g1_kernel_def by simp
qed

lemma p2g1_fold_total:
  assumes "n \<le> length (particleBuffer st)"
      and "\<forall>i<n. stencil_in_grid (position (particleBuffer st ! i))"
  shows "\<exists>st'. foldM (p2g1_kernel u) [0..<n] st = Inr st'"
  using assms
proof (induction n)
  case 0
  then show ?case by simp
next
  case (Suc n)
  then obtain st1 where s1: "foldM (p2g1_kernel u) [0..<n] st = Inr st1" by auto
  have pb: "particleBuffer st1 = particleBuffer st" by (rule p2g1_fold_pb [OF s1])
  from Suc.prems have "n < length (particleBuffer st1)"
    "stencil_in_grid (position (particleBuffer st1 ! n))" unfolding pb by simp_all
  from p2g1_kernel_total [OF this, of u] obtain st' where "p2g1_kernel u n st1 = Inr st'" by blast
  with s1 show ?case by (simp add: foldM_snoc)
qed

lemma p2g1_total:
  assumes "numParticles u \<le> length (particleBuffer st)"
      and "\<forall>i<numParticles u. stencil_in_grid (position (particleBuffer st ! i))"
  shows "\<exists>st1. p2g1 u (clearGrid st) = Inr st1"
  unfolding p2g1_def
  using p2g1_fold_total [of "numParticles u" "clearGrid st" u] assms by (simp add: clearGrid_fields)

lemma p2g2_total:
  assumes "p2g1 u (clearGrid st0) = Inr st1" and "0 < restDensity u"
      and "\<forall>c<cellCount. mass_sum (take (numParticles u) (particleBuffer st0)) c \<le> i32_max"
  shows "\<exists>st2. p2g2 u st1 = Inr st2"
proof -
  note f = scatter1_facts [OF assms(1)]
  have "\<forall>i<numParticles u. stencil_in_grid (position (particleBuffer st1 ! i))
              \<and> (\<exists>d. gather_density (position (particleBuffer st1 ! i)) (cellBuffer st1) = Inr d \<and> 0 < d)"
  proof (intro allI impI conjI)
    fix i assume i: "i < numParticles u"
    show "stencil_in_grid (position (particleBuffer st1 ! i))" using f(2,4) i by simp
    from scatter1_density [OF assms(1,3) i] obtain d where
      "gather_density (position (particleBuffer st0 ! i)) (cellBuffer st1) = Inr d" "1 / 64 \<le> d" by blast
    then show "\<exists>d. gather_density (position (particleBuffer st1 ! i)) (cellBuffer st1) = Inr d \<and> 0 < d"
      unfolding f(2) by (intro exI [of _ d]) simp
  qed
  with p2g2_fold_total [of "numParticles u" st1 u] f(1,2) assms(2) show ?thesis
    unfolding p2g2_def by simp
qed

lemma lone_uniforms_simps:
  "numParticles lone_uniforms = 1" "restDensity lone_uniforms = 1" "stiffness lone_uniforms = 3"
  "dt lone_uniforms = 1 / 10" "dynamicViscosity lone_uniforms = 1 / 10"
  unfolding lone_uniforms_def chaos_uniforms_def by simp_all

lemma lone_in_grid: "stencil_in_grid (position lone_particle)"
  unfolding lone_particle_def particle_at_rest_def by (simp add: stencil_in_grid_range)

lemma lone_no_overflow: "mass_sum (take (numParticles lone_uniforms) (particleBuffer lone_state)) c \<le> i32_max"
  using mass_sum_le [of "take (numParticles lone_uniforms) (particleBuffer lone_state)" c]
  unfolding lone_state_def stale_grid_def i32_max_def by (simp add: lone_uniforms_simps)

lemma lone_p2g1: "p2g1 lone_uniforms (clearGrid lone_state) = Inr (after_p2g1 lone_uniforms lone_state)"
proof -
  have "\<exists>st1. p2g1 lone_uniforms (clearGrid lone_state) = Inr st1"
    by (rule p2g1_total) (simp_all add: lone_uniforms_simps lone_state_def stale_grid_def lone_in_grid)
  then show ?thesis unfolding after_p2g1_def by auto
qed

lemma lone_p2g2: "p2g2 lone_uniforms (after_p2g1 lone_uniforms lone_state)
                  = Inr (after_p2g2 lone_uniforms lone_state)"
proof -
  have "\<exists>st2. p2g2 lone_uniforms (after_p2g1 lone_uniforms lone_state) = Inr st2"
    by (rule p2g2_total [OF lone_p2g1]) (simp_all add: lone_uniforms_simps(2) lone_no_overflow)
  then show ?thesis unfolding after_p2g2_def by auto
qed

lemma lone_cell0: "cell_mass (cellBuffer (after_p2g2 lone_uniforms lone_state) 0) = 0"
proof -
  have "cell_mass (cellBuffer (after_p2g2 lone_uniforms lone_state) 0)
        = cell_mass (cellBuffer (after_p2g1 lone_uniforms lone_state) 0)"
    using p2g2_fold_effect [OF lone_p2g2 [unfolded p2g2_def]] by simp
  also have "\<dots> = mass_sum (take (numParticles lone_uniforms) (particleBuffer lone_state)) 0"
    by (rule scatter1_mass [OF lone_p2g1 _ lone_no_overflow]) (simp add: cellCount_def)
  also have "\<dots> = 0"
    unfolding mass_sum_def lone_state_def stale_grid_def lone_particle_def
      particle_at_rest_def stencil_eq mass_contrib_at_def
    by (simp add: cellX_in_grid(2) lone_uniforms_simps)
  finally show ?thesis .
qed

text \<open>
  C3. A cell whose decoded accumulated mass is \<open>\<le> 0\<close> is resolved without any division:
  the invocation of \<open>updateGrid\<close> returns before the three divisions, the pass as a whole
  produces no non-finite value, and since \<open>clearGrid\<close> zeroed \<open>cellBufferF\<close> at the start
  of the step and neither scatter pass writes it, the cell's resolved velocity (and the
  mass stored beside it) is exactly zero.
\<close>

theorem empty_cell_resolves_to_zero:
  assumes "p2g1 u (clearGrid st0) = Inr st1" and "p2g2 u st1 = Inr st2"
      and "i < cellCount" and "decodeFixedPoint (cell_mass (cellBuffer st2 i)) \<le> 0"
  shows "updateGrid_cell i (cellBuffer st2 i) = Inr None
         \<and> (\<exists>st3. updateGrid st2 = Inr st3 \<and> cellBufferF st3 i = vec4 0 0 0 0)"
proof -
  have r: "updateGrid_cell i (cellBuffer st2 i) = Inr None"
    using assms(4) unfolding updateGrid_cell_def by (simp add: Let_def)
  have "cellBufferF st2 i = vec4 0 0 0 0"
    using p2g2_fold_effect [OF assms(2) [unfolded p2g2_def]] scatter1_facts(3) [OF assms(1)] assms(3)
    by (simp add: clearGrid_fields)
  then have "resolved st2 i = vec4 0 0 0 0" unfolding resolved_def r by simp
  then show ?thesis using r assms(3) by (simp add: updateGrid_eq)
qed

theorem empty_cell_resolves_to_zero_witness:
  "p2g1 lone_uniforms (clearGrid lone_state) = Inr (after_p2g1 lone_uniforms lone_state)
   \<and> p2g2 lone_uniforms (after_p2g1 lone_uniforms lone_state)
       = Inr (after_p2g2 lone_uniforms lone_state)
   \<and> 0 < cellCount
   \<and> decodeFixedPoint (cell_mass (cellBuffer (after_p2g2 lone_uniforms lone_state) 0)) \<le> 0
   \<and> updateGrid_cell 0 (cellBuffer (after_p2g2 lone_uniforms lone_state) 0) = Inr None
   \<and> (\<exists>st3. updateGrid (after_p2g2 lone_uniforms lone_state) = Inr st3 \<and> cellBufferF st3 0 = vec4 0 0 0 0)"
proof -
  have c: "0 < cellCount" by (simp add: cellCount_def)
  have d: "decodeFixedPoint (cell_mass (cellBuffer (after_p2g2 lone_uniforms lone_state) 0)) \<le> 0"
    unfolding lone_cell0 by (simp add: codec_values)
  from empty_cell_resolves_to_zero [OF lone_p2g1 lone_p2g2 c d] lone_p2g1 lone_p2g2 c d
  show ?thesis by blast
qed

lemma updateGrid_cell_early: "updateGrid_cell i cell = Inr None \<longleftrightarrow> decodeFixedPoint (cell_mass cell) \<le> 0"
  unfolding updateGrid_cell_def fdiv_def by (auto simp: Let_def)

lemma decode_le_zero: "decodeFixedPoint m \<le> 0 \<longleftrightarrow> m \<le> 0"
proof
  assume d: "decodeFixedPoint m \<le> 0"
  show "m \<le> 0"
  proof (rule ccontr)
    assume "\<not> m \<le> 0"
    then have "decodeFixedPoint 1 \<le> decodeFixedPoint m" by (intro decode_mono) simp
    moreover have "0 < decodeFixedPoint 1" by code_simp
    ultimately show False using d by simp
  qed
next
  assume "m \<le> 0"
  from decode_mono [OF this] show "decodeFixedPoint m \<le> 0" by (simp add: decode_zero)
qed

text \<open>
  C10 (amended). For every offset \<open>d\<close> in \<open>[-0.5, 0.5)\<close> the three weights are
  non-negative and every fixed-point mass contribution of \<open>p2g1\<close> is \<open>\<ge> 0\<close>.  As long
  as the exact sum of the contributions to a cell does not exceed \<open>2147483647\<close> (the
  32-bit additions did not wrap around), the cell's accumulated integer mass after both
  scatter passes is that sum and is non-negative, and the early return of \<open>updateGrid\<close>
  fires for the cell exactly when its accumulated integer mass is zero.
\<close>

theorem accumulated_mass_nonneg:
  assumes "- 1 / 2 \<le> d" and "d < 1 / 2"
      and "p2g1 u (clearGrid st0) = Inr st1" and "p2g2 u st1 = Inr st2" and "c < cellCount"
      and "mass_sum (take (numParticles u) (particleBuffer st0)) c \<le> i32_max"
  shows "0 \<le> w0 d \<and> 0 \<le> w1 d \<and> 0 \<le> w2 d
       \<and> 0 \<le> encodeFixedPoint (massContrib pos g)
       \<and> cell_mass (cellBuffer st2 c) = mass_sum (take (numParticles u) (particleBuffer st0)) c
       \<and> 0 \<le> cell_mass (cellBuffer st2 c)
       \<and> (updateGrid_cell c (cellBuffer st2 c) = Inr None \<longleftrightarrow> cell_mass (cellBuffer st2 c) = 0)"
proof -
  have m: "cell_mass (cellBuffer st2 c) = mass_sum (take (numParticles u) (particleBuffer st0)) c"
    using p2g2_fold_effect [OF assms(4) [unfolded p2g2_def]] scatter1_mass [OF assms(3,5,6)] by simp
  have nn: "0 \<le> cell_mass (cellBuffer st2 c)" unfolding m by (rule mass_sum_nonneg)
  have "0 \<le> encodeFixedPoint (massContrib pos g)"
    unfolding massContrib_def by (rule encode_nonneg [OF weight_of_nonneg])
  moreover have "updateGrid_cell c (cellBuffer st2 c) = Inr None \<longleftrightarrow> cell_mass (cellBuffer st2 c) = 0"
    unfolding updateGrid_cell_early decode_le_zero using nn by auto
  ultimately show ?thesis
    using m nn w0_nonneg [of d] w2_nonneg [of d] w1_nonneg [OF assms(1,2)] by simp
qed

lemma lone_centre_cell: "getCell (cellX_of (position lone_particle) (1, 1, 1)) = Inr 41610"
  unfolding lone_particle_def particle_at_rest_def by (simp add: cellX_in_grid(2))

lemma lone_mass_at_centre: "(\<Sum>g\<leftarrow>stencil. mass_contrib_at (position lone_particle) 41610 g) = 4218750"
  unfolding stencil_eq mass_contrib_at_def lone_particle_def particle_at_rest_def
  by (simp add: cellX_in_grid(2) massContrib_def weight_of_def weights_def cellDiff_of_def
      w1_def frac_def codec_values)

theorem accumulated_mass_nonneg_witness:
  "- 1 / 2 \<le> (0::real) \<and> (0::real) < 1 / 2
   \<and> p2g1 lone_uniforms (clearGrid lone_state) = Inr (after_p2g1 lone_uniforms lone_state)
   \<and> p2g2 lone_uniforms (after_p2g1 lone_uniforms lone_state) = Inr (after_p2g2 lone_uniforms lone_state)
   \<and> 41610 < cellCount
   \<and> mass_sum (take (numParticles lone_uniforms) (particleBuffer lone_state)) 41610 \<le> i32_max
   \<and> 0 \<le> w1 0
   \<and> cell_mass (cellBuffer (after_p2g2 lone_uniforms lone_state) 41610) = 4218750
   \<and> updateGrid_cell 41610 (cellBuffer (after_p2g2 lone_uniforms lone_state) 41610) \<noteq> Inr None"
proof -
  have c: "41610 < cellCount" by (simp add: cellCount_def)
  have d: "- 1 / 2 \<le> (0::real)" "(0::real) < 1 / 2" by simp_all
  have s: "mass_sum (take (numParticles lone_uniforms) (particleBuffer lone_state)) 41610 = 4218750"
    unfolding mass_sum_def lone_state_def stale_grid_def
    by (simp add: lone_uniforms_simps lone_mass_at_centre)
  from accumulated_mass_nonneg [OF d lone_p2g1 lone_p2g2 c lone_no_overflow,
      of "position lone_particle" "(1, 1, 1)"]
  show ?thesis using lone_p2g1 lone_p2g2 c lone_no_overflow [of 41610] s by simp
qed

lemma mass_sum_replicate:
  "mass_sum (replicate n p) c = int n * (\<Sum>g\<leftarrow>stencil. mass_contrib_at (position p) c g)"
  unfolding mass_sum_def by (induction n) (simp_all add: algebra_simps)

lemma crowd_uniforms_simps: "numParticles crowd_uniforms = 510"
  unfolding crowd_uniforms_def chaos_uniforms_def by simp

lemma crowd_p2g1: "p2g1 crowd_uniforms (clearGrid crowd_state) = Inr (after_p2g1 crowd_uniforms crowd_state)"
proof -
  have "\<exists>st1. p2g1 crowd_uniforms (clearGrid crowd_state) = Inr st1"
    by (rule p2g1_total) (simp_all add: crowd_uniforms_simps crowd_state_def stale_grid_def lone_in_grid)
  then show ?thesis unfolding after_p2g1_def by auto
qed

text \<open>
  Without the bound the claim fails: \<open>510\<close> particles at \<open>(10.5, 10.5, 10.5)\<close> each add
  \<open>4218750\<close> to cell \<open>(10, 10, 10)\<close>; the 32-bit sum wraps to a negative value, and
  \<open>updateGrid\<close> returns early for a cell whose integer mass is not zero.  (\<open>p2g2\<close> never
  writes the mass field.)
\<close>

theorem crowded_cell_mass_negative:
  "p2g1 crowd_uniforms (clearGrid crowd_state) = Inr (after_p2g1 crowd_uniforms crowd_state)
   \<and> cell_mass (cellBuffer (after_p2g1 crowd_uniforms crowd_state) 41610) = - 2143404796
   \<and> updateGrid_cell 41610 (cellBuffer (after_p2g1 crowd_uniforms crowd_state) 41610) = Inr None"
proof -
  have w: "wrap32 (cell_mass (cellBuffer (clearGrid crowd_state) 41610))
           = cell_mass (cellBuffer (clearGrid crowd_state) 41610)"
    by (simp add: clearGrid_fields cellCount_def wrap32_def)
  have "cell_mass (cellBuffer (after_p2g1 crowd_uniforms crowd_state) 41610)
        = wrap32 (mass_sum (replicate 510 lone_particle) 41610)"
    using p2g1_fold_effect [OF crowd_p2g1 [unfolded p2g1_def] order_refl w]
    by (simp add: clearGrid_fields cellCount_def crowd_uniforms_simps crowd_state_def stale_grid_def)
  also have "\<dots> = - 2143404796"
    unfolding mass_sum_replicate lone_mass_at_centre by (simp add: wrap32_def)
  finally have m: "cell_mass (cellBuffer (after_p2g1 crowd_uniforms crowd_state) 41610) = - 2143404796" .
  then show ?thesis using crowd_p2g1 by (simp add: updateGrid_cell_early decode_le_zero)
qed

lemma sum_list_map_zero:
  fixes f :: "'a \<Rightarrow> real"
  shows "(\<And>x. x \<in> set xs \<Longrightarrow> f x = 0) \<Longrightarrow> (\<Sum>x\<leftarrow>xs. f x) = 0"
  by (induction xs) simp_all

text \<open>
  The division \<open>float(1).div(density)\<close> of \<open>p2g2\<close> has no guard: run on a particle whose
  stencil holds no mass (here: directly after \<open>clearGrid\<close>), the kernel samples density
  \<open>0\<close> and produces a non-finite value instead of leaving the grid unchanged.
\<close>

theorem scatter2_division_is_unguarded:
  "gather_density (position lone_particle) (cellBuffer (clearGrid lone_state)) = Inr 0
   \<and> p2g2_kernel lone_uniforms 0 (clearGrid lone_state) = Inl NonFinite"
proof -
  have "\<And>g. g \<in> set stencil \<Longrightarrow> cell_of (position lone_particle) g < cellCount"
    using lone_in_grid getCell_ok getCell_lt unfolding stencil_in_grid_def by blast
  then have "\<And>g. g \<in> set stencil \<Longrightarrow>
      decodeFixedPoint (cell_mass (cellBuffer (clearGrid lone_state) (cell_of (position lone_particle) g)))
        * weight_of (position lone_particle) g = 0"
    by (simp add: clearGrid_fields codec_values)
  then have "(\<Sum>g\<leftarrow>stencil. decodeFixedPoint (cell_mass (cellBuffer (clearGrid lone_state)
        (cell_of (position lone_particle) g))) * weight_of (position lone_particle) g) = 0"
    by (rule sum_list_map_zero)
  then have g: "gather_density (position lone_particle) (cellBuffer (clearGrid lone_state)) = Inr 0"
    using gather_density_eq [OF lone_in_grid] by simp
  have "particle_at (clearGrid lone_state) 0 = Inr lone_particle"
    unfolding particle_at_def by (simp add: clearGrid_fields lone_state_def stale_grid_def)
  then have "p2g2_kernel lone_uniforms 0 (clearGrid lone_state) = Inl NonFinite"
    unfolding p2g2_kernel_def using g
    by (simp add: lone_uniforms_simps eq16Term0_of_def fdiv_def)
  with g show ?thesis by simp
qed

text \<open>
  C5 (amended). The division by the re-gathered density in \<open>p2g2\<close> needs no guard inside
  a step: when \<open>p2g1\<close> has run on the cleared grid, no cell's exact mass sum exceeds
  \<open>2147483647\<close> and \<open>restDensity > 0\<close>, every active particle samples a density of at
  least \<open>1/64\<close> (its own contribution to its centre cell), so \<open>volume = 1/density\<close> is
  finite, and the whole pass produces no non-finite value.
\<close>

theorem scatter2_density_positive:
  assumes "p2g1 u (clearGrid st0) = Inr st1" and "0 < restDensity u"
      and "\<forall>c<cellCount. mass_sum (take (numParticles u) (particleBuffer st0)) c \<le> i32_max"
      and "k < numParticles u"
  shows "(\<exists>d. gather_density (position (particleBuffer st1 ! k)) (cellBuffer st1) = Inr d
              \<and> 1 / 64 \<le> d \<and> fdiv 1 d = Inr (1 / d))
         \<and> (\<exists>st2. p2g2 u st1 = Inr st2)"
proof -
  from scatter1_density [OF assms(1,3,4)] obtain d where
    d: "gather_density (position (particleBuffer st0 ! k)) (cellBuffer st1) = Inr d" "1 / 64 \<le> d"
    by blast
  then have "fdiv 1 d = Inr (1 / d)" unfolding fdiv_def by simp
  with d scatter1_facts(2) [OF assms(1)] p2g2_total [OF assms(1,2,3)] show ?thesis by simp
qed

theorem scatter2_density_positive_witness:
  "p2g1 lone_uniforms (clearGrid lone_state) = Inr (after_p2g1 lone_uniforms lone_state)
   \<and> 0 < restDensity lone_uniforms
   \<and> (\<forall>c. mass_sum (take (numParticles lone_uniforms) (particleBuffer lone_state)) c \<le> i32_max)
   \<and> 0 < numParticles lone_uniforms
   \<and> (\<exists>d. gather_density (position (particleBuffer (after_p2g1 lone_uniforms lone_state) ! 0))
              (cellBuffer (after_p2g1 lone_uniforms lone_state)) = Inr d
            \<and> 1 / 64 \<le> d \<and> fdiv 1 d = Inr (1 / d))
   \<and> (\<exists>st2. p2g2 lone_uniforms (after_p2g1 lone_uniforms lone_state) = Inr st2)"
proof -
  have r: "0 < restDensity lone_uniforms" by (simp add: lone_uniforms_simps)
  have o: "\<forall>c<cellCount. mass_sum (take (numParticles lone_uniforms) (particleBuffer lone_state)) c \<le> i32_max"
    by (simp add: lone_no_overflow)
  have k: "0 < numParticles lone_uniforms" by (simp add: lone_uniforms_simps)
  have o': "\<forall>c. mass_sum (take (numParticles lone_uniforms) (particleBuffer lone_state)) c \<le> i32_max"
    by (simp add: lone_no_overflow)
  from scatter2_density_positive [OF lone_p2g1 r o k] lone_p2g1 r o' k show ?thesis by blast
qed

lemma smoothstep_mono:
  assumes "0 \<le> a" "a \<le> b" "b \<le> (1::real)"
  shows "easedProgress a \<le> easedProgress b"
proof -
  have "easedProgress b - easedProgress a = (b - a) * (a * (3 - 2 * a - b) + b * (3 - 2 * b - a))"
    unfolding easedProgress_def by (simp add: algebra_simps)
  moreover have "0 \<le> a * (3 - 2 * a - b)" using assms by (intro mult_nonneg_nonneg) simp_all
  moreover have "0 \<le> b * (3 - 2 * b - a)" using assms by (intro mult_nonneg_nonneg) simp_all
  moreover have "0 \<le> b - a" using assms by simp
  ultimately have "0 \<le> easedProgress b - easedProgress a" by simp
  then show ?thesis by simp
qed

lemma boostProgress_eq:
  "0 < dur \<Longrightarrow> 0 \<le> t \<Longrightarrow> t \<le> dur \<Longrightarrow> boostProgress t dur = Inr (t / dur)"
  unfolding boostProgress_def fdiv_def clamp_def by simp

lemma boost_values:
  assumes "0 < dur" "0 \<le> t" "t \<le> dur"
  shows "boostMultiplier t dur = Inr (1 + 19 * easedProgress (t / dur))"
    and "dampingFactor t dur = Inr (98 / 100 - 28 / 100 * easedProgress (t / dur))"
proof -
  have m: "\<And>e::real. mix 1 20 e = 1 + 19 * e" unfolding mix_def by (simp add: algebra_simps)
  have d: "\<And>e::real. mix 0.98 0.7 e = 98 / 100 - 28 / 100 * e"
    unfolding mix_def by (simp add: field_simps)
  show "boostMultiplier t dur = Inr (1 + 19 * easedProgress (t / dur))"
    unfolding boostMultiplier_def boostProgress_eq [OF assms] by (simp add: m)
  show "dampingFactor t dur = Inr (98 / 100 - 28 / 100 * easedProgress (t / dur))"
    unfolding dampingFactor_def boostProgress_eq [OF assms] by (simp only: and_then_Inr d)
qed




lemma p2g1_cell_at:
  assumes "p2g1_cell p g cb = Inr cb'"
  shows "cb' c = scatter1_at p c g (cb c)"
proof -
  from assms obtain k where k: "getCell (cellX_of (position p) g) = Inr k"
    and cb': "cb' = atomicAdd_mass k (encodeFixedPoint (massContrib (position p) g))
           (atomicAdd_z k (encodeFixedPoint (vec_z (velContrib p g)))
           (atomicAdd_y k (encodeFixedPoint (vec_y (velContrib p g)))
           (atomicAdd_x k (encodeFixedPoint (vec_x (velContrib p g))) cb)))"
    unfolding p2g1_cell_def by (auto simp: and_then_eq_Inr)
  show ?thesis
    unfolding cb' scatter1_at_def scatter1_add_def k
    by (simp add: atomicAdd_mass_def atomicAdd_x_def atomicAdd_y_def atomicAdd_z_def)
qed

lemma p2g1_cells_at:
  "foldM (p2g1_cell p) gs cb = Inr cb' \<Longrightarrow> cb' c = fold (scatter1_at p c) gs (cb c)"
proof (induction gs arbitrary: cb)
  case Nil
  then show ?case by simp
next
  case (Cons g gs)
  from Cons.prems obtain cb1 where
    s1: "p2g1_cell p g cb = Inr cb1" and s2: "foldM (p2g1_cell p) gs cb1 = Inr cb'"
    by (auto split: sum.splits)
  from Cons.IH [OF s2] p2g1_cell_at [OF s1, of c] show ?case by simp
qed

lemma scatter1_at_in_range: "cell_in_range cell \<Longrightarrow> cell_in_range (scatter1_at p c g cell)"
  unfolding scatter1_at_def scatter1_add_def cell_in_range_def by (simp add: wrap32_idem)

lemma scatter1_fold_in_range:
  "cell_in_range cell \<Longrightarrow> cell_in_range (fold (scatter1_at p c) gs cell)"
  by (induction gs arbitrary: cell) (simp_all add: scatter1_at_in_range)

lemma upt_one: "[0..<1] = [0]"
  by (simp add: upt_rec)

lemma lone_after_p2g1:
  assumes "numParticles u = 1" and "p2g1 u (clearGrid st0) = Inr st1" and "c < cellCount"
  shows "cellBuffer st1 c = fold (scatter1_at (particleBuffer st0 ! 0) c) stencil zero_cell"
proof -
  from assms(2) have k: "p2g1_kernel u 0 (clearGrid st0) = Inr st1"
    unfolding p2g1_def assms(1) upt_one foldM_single .
  then obtain p cb where
    p: "particle_at (clearGrid st0) 0 = Inr p" and
    cb: "foldM (p2g1_cell p) stencil (cellBuffer (clearGrid st0)) = Inr cb" and
    st1: "st1 = (clearGrid st0)\<lparr>cellBuffer := cb\<rparr>"
    unfolding p2g1_kernel_def using assms(1) by (auto simp: and_then_eq_Inr)
  from p have pe: "p = particleBuffer st0 ! 0"
    unfolding particle_at_def by (simp add: clearGrid_fields split: if_splits)
  show ?thesis
    using p2g1_cells_at [OF cb, of c] assms(3) unfolding st1 pe
    by (simp add: clearGrid_fields zero_cell_def)
qed

lemma zero_mat_vec: "mat_vec (mat_scale zero_mat w) d = vec3 0 0 0"
  unfolding mat_vec_def mat_scale_def zero_mat_def vscale_def vadd_def by simp

lemma p2g2_cell_zero:
  assumes "p2g2_cell pos zero_mat g cb = Inr cb'" and "\<forall>c<cellCount. cell_in_range (cb c)"
  shows "cb' = cb"
proof -
  from assms(1) obtain k where k: "getCell (cellX_of pos g) = Inr k"
    and cb': "cb' = atomicAdd_z k 0 (atomicAdd_y k 0 (atomicAdd_x k 0 cb))"
    unfolding p2g2_cell_def by (auto simp: and_then_eq_Inr zero_mat_vec encode_zero)
  from getCell_lt [OF k] assms(2) have "cell_in_range (cb k)" by simp
  then show ?thesis
    unfolding cb' atomicAdd_x_def atomicAdd_y_def atomicAdd_z_def cell_in_range_def
    by (simp add: fun_eq_iff)
qed

lemma p2g2_cells_zero:
  "foldM (p2g2_cell pos zero_mat) gs cb = Inr cb' \<Longrightarrow> \<forall>c<cellCount. cell_in_range (cb c) \<Longrightarrow> cb' = cb"
proof (induction gs arbitrary: cb)
  case Nil
  then show ?case by simp
next
  case (Cons g gs)
  from Cons.prems(1) obtain cb1 where
    s1: "p2g2_cell pos zero_mat g cb = Inr cb1" and s2: "foldM (p2g2_cell pos zero_mat) gs cb1 = Inr cb'"
    by (auto split: sum.splits)
  from p2g2_cell_zero [OF s1 Cons.prems(2)] have "cb1 = cb" .
  with Cons.IH [of cb] s2 Cons.prems(2) show ?case by simp
qed

lemma pressure_zero:
  assumes "0 \<le> d" and "d \<le> restDensity u" and "0 < restDensity u" and "0 \<le> stiffness u"
  shows "pressure_of u d = Inr 0"
proof -
  let ?q = "d / restDensity u"
  have q: "0 \<le> ?q" "?q \<le> 1" using assms by simp_all
  then have "?q ^ 5 \<le> 1" by (simp add: power_le_one)
  then have "(?q ^ 5 - 1) * stiffness u \<le> 0"
    using assms(4) by (simp add: mult_nonpos_nonneg)
  then show ?thesis
    unfolding pressure_of_def fdiv_def pow5_def using assms(3) q by (simp add: not_less)
qed

lemma stress_zero: "stress_of u 0 zero_mat = zero_mat"
  unfolding stress_of_def zero_mat_def mat_add_def mat_scale_def transpose_mat_def vadd_def vscale_def
  by simp

lemma eq16_zero:
  assumes "0 < d" and "d \<le> restDensity u" and "0 \<le> stiffness u"
  shows "eq16Term0_of u d zero_mat = Inr zero_mat"
proof -
  have r: "0 < restDensity u" using assms by simp
  have "pressure_of u d = Inr 0" using assms r by (intro pressure_zero) simp_all
  then show ?thesis
    unfolding eq16Term0_of_def fdiv_def using assms(1)
    by (simp add: stress_zero) (simp add: zero_mat_def mat_scale_def vscale_def)
qed

lemma lone_density_le:
  assumes "numParticles u = 1" and "p2g1 u (clearGrid st0) = Inr st1"
      and "gather_density (position (particleBuffer st0 ! 0)) (cellBuffer st1) = Inr d"
  shows "d \<le> 1"
proof -
  let ?pos = "position (particleBuffer st0 ! 0)"
  let ?ps = "take (numParticles u) (particleBuffer st0)"
  note f = scatter1_facts [OF assms(2)]
  have ig: "stencil_in_grid ?pos" using f(4) [of 0] assms(1) by simp
  have lt: "\<And>g. g \<in> set stencil \<Longrightarrow> cell_of ?pos g < cellCount"
    using ig getCell_ok getCell_lt unfolding stencil_in_grid_def by blast
  have le: "\<And>c. mass_sum ?ps c \<le> 10000000"
    using mass_sum_le [of ?ps] assms(1) f(1) by simp
  have m: "\<And>g. g \<in> set stencil \<Longrightarrow> cell_mass (cellBuffer st1 (cell_of ?pos g)) \<le> 10000000"
  proof -
    fix g assume g: "g \<in> set stencil"
    have "mass_sum ?ps (cell_of ?pos g) \<le> i32_max"
      using le [of "cell_of ?pos g"] by (simp add: i32_max_def)
    from scatter1_mass [OF assms(2) lt [OF g] this] le [of "cell_of ?pos g"]
    show "cell_mass (cellBuffer st1 (cell_of ?pos g)) \<le> 10000000" by simp
  qed
  have "d = (\<Sum>g\<leftarrow>stencil. decodeFixedPoint (cell_mass (cellBuffer st1 (cell_of ?pos g))) * weight_of ?pos g)"
    using gather_density_eq [OF ig, of "cellBuffer st1"] assms(3) by simp
  also have "\<dots> \<le> (\<Sum>g\<leftarrow>stencil. 1 * weight_of ?pos g)"
  proof (intro sum_list_mono mult_right_mono weight_of_nonneg)
    fix g assume "g \<in> set stencil"
    from decode_mono [OF m [OF this]]
    show "decodeFixedPoint (cell_mass (cellBuffer st1 (cell_of ?pos g))) \<le> 1"
      by (simp add: codec_values)
  qed
  also have "\<dots> = 1" using stencil_sum [of ?pos] by (simp add: massContrib_def)
  finally show ?thesis .
qed

lemma lone_after_p2g2:
  assumes "numParticles u = 1" and "p2g1 u (clearGrid st0) = Inr st1" and "p2g2 u st1 = Inr st2"
      and "C_mat (particleBuffer st0 ! 0) = zero_mat"
      and "1 \<le> restDensity u" and "0 \<le> stiffness u"
  shows "cellBuffer st2 = cellBuffer st1"
proof -
  let ?p = "particleBuffer st0 ! 0"
  note f = scatter1_facts [OF assms(2)]
  from assms(3) have k: "p2g2_kernel u 0 st1 = Inr st2"
    unfolding p2g2_def assms(1) upt_one foldM_single .
  then obtain p d eq cb where
    p: "particle_at st1 0 = Inr p" and
    d: "gather_density (position p) (cellBuffer st1) = Inr d" and
    eq: "eq16Term0_of u d (C_mat p) = Inr eq" and
    cb: "foldM (p2g2_cell (position p) eq) stencil (cellBuffer st1) = Inr cb" and
    st2: "cellBuffer st2 = cb"
    unfolding p2g2_kernel_def using assms(1) by (auto simp: and_then_eq_Inr)
  from p f(2) have pe: "p = ?p" unfolding particle_at_def by (simp split: if_splits)
  have o: "\<forall>c<cellCount. mass_sum (take (numParticles u) (particleBuffer st0)) c \<le> i32_max"
  proof (intro allI impI)
    fix c
    have "mass_sum (take (numParticles u) (particleBuffer st0)) c \<le> 10000000"
      using mass_sum_le [of "take (numParticles u) (particleBuffer st0)" c] assms(1) f(1) by simp
    then show "mass_sum (take (numParticles u) (particleBuffer st0)) c \<le> i32_max"
      by (simp add: i32_max_def)
  qed
  from scatter1_density [OF assms(2) o, of 0] assms(1) d pe have dpos: "0 < d" by auto
  from lone_density_le [OF assms(1,2)] d pe have "d \<le> 1" by simp
  with assms(5) have "d \<le> restDensity u" by simp
  from eq16_zero [OF dpos this assms(6)] eq assms(4) pe have eqz: "eq = zero_mat" by simp
  have r: "\<forall>c<cellCount. cell_in_range (cellBuffer st1 c)"
  proof (intro allI impI)
    fix c assume c: "c < cellCount"
    have "cell_in_range zero_cell" unfolding cell_in_range_def zero_cell_def by (simp add: wrap32_def)
    then show "cell_in_range (cellBuffer st1 c)"
      unfolding lone_after_p2g1 [OF assms(1,2) c] by (rule scatter1_fold_in_range)
  qed
  from p2g2_cells_zero [OF cb [unfolded eqz] r] st2 show ?thesis by simp
qed

lemma edge_particle_simps:
  "position edge_particle = vec3 (251 / 2) (65 / 2) (65 / 2)" "velocity edge_particle = vec3 1 0 0"
  "C_mat edge_particle = zero_mat"
  unfolding edge_particle_def particle_at_rest_def by simp_all

lemma edge_in_grid: "stencil_in_grid (position edge_particle)"
  unfolding edge_particle_simps by (simp add: stencil_in_grid_range)

lemma edge_p2g1: "p2g1 lone_uniforms (clearGrid edge_state) = Inr (after_p2g1 lone_uniforms edge_state)"
proof -
  have "\<exists>st1. p2g1 lone_uniforms (clearGrid edge_state) = Inr st1"
    by (rule p2g1_total) (simp_all add: lone_uniforms_simps edge_state_def stale_grid_def edge_in_grid)
  then show ?thesis unfolding after_p2g1_def by auto
qed

lemma lone_no_overflow_gen:
  "length ps = 1 \<Longrightarrow> mass_sum (take (numParticles lone_uniforms) ps) c \<le> i32_max"
  using mass_sum_le [of "take (numParticles lone_uniforms) ps" c]
  unfolding i32_max_def by (simp add: lone_uniforms_simps)

lemma edge_p2g2: "p2g2 lone_uniforms (after_p2g1 lone_uniforms edge_state)
                  = Inr (after_p2g2 lone_uniforms edge_state)"
proof -
  have "\<exists>st2. p2g2 lone_uniforms (after_p2g1 lone_uniforms edge_state) = Inr st2"
    by (rule p2g2_total [OF edge_p2g1])
       (simp_all add: lone_uniforms_simps(2) lone_no_overflow_gen edge_state_def stale_grid_def)
  then show ?thesis unfolding after_p2g2_def by auto
qed

lemma after_updateGrid_eq: "updateGrid (after_p2g2 u st) = Inr (after_updateGrid u st)"
  unfolding after_updateGrid_def by (simp add: updateGrid_eq)

lemma after_updateGrid_F:
  "i < cellCount \<Longrightarrow> cellBufferF (after_updateGrid u st) i = resolved (after_p2g2 u st) i"
  unfolding after_updateGrid_def by (simp add: updateGrid_eq)

lemma cellDiff_edge: "cellDiff_of (vec3 (251 / 2) (65 / 2) (65 / 2)) = vec3 0 0 0"
  unfolding cellDiff_of_def frac_def by simp

lemma edge_cell_content:
  "cellBuffer (after_p2g2 lone_uniforms edge_state) 518176
   = \<lparr>cell_x = 703125, cell_y = 0, cell_z = 0, cell_mass = 703125\<rparr>"
proof -
  have e: "particleBuffer edge_state ! 0 = edge_particle"
    unfolding edge_state_def stale_grid_def by simp
  have "cellBuffer (after_p2g2 lone_uniforms edge_state) = cellBuffer (after_p2g1 lone_uniforms edge_state)"
    by (rule lone_after_p2g2 [OF _ edge_p2g1 edge_p2g2])
       (simp_all add: lone_uniforms_simps e edge_particle_simps)
  then have "cellBuffer (after_p2g2 lone_uniforms edge_state) 518176
             = cellBuffer (after_p2g1 lone_uniforms edge_state) 518176" by simp
  also have "\<dots> = fold (scatter1_at edge_particle 518176) stencil zero_cell"
    using lone_after_p2g1 [OF _ edge_p2g1, of 518176] by (simp add: lone_uniforms_simps e cellCount_def)
  also have "\<dots> = \<lparr>cell_x = 703125, cell_y = 0, cell_z = 0, cell_mass = 703125\<rparr>"
    unfolding stencil_eq scatter1_at_def edge_particle_simps
    by (simp add: cellX_in_grid(2) scatter1_add_def velContrib_def massContrib_def weight_of_def
        weights_def cellDiff_edge w0_def w1_def w2_def edge_particle_simps zero_mat_def mat_vec_def
        vadd_def vscale_def cellDist_of_def vsub_def zero_cell_def codec_values wrap32_def)
  finally show ?thesis .
qed

lemma updateGrid_cell_damping:
  assumes "updateGrid_cell i cell = Inr (Some v)"
  shows "(ivec_x (cell_coord i) < 2 \<or> ivec_x (cell_coord i) > 126 \<longrightarrow> vec4_x v = 0)
       \<and> (ivec_y (cell_coord i) < 2 \<or> ivec_y (cell_coord i) > 62 \<longrightarrow> vec4_y v = 0)
       \<and> (ivec_z (cell_coord i) < 2 \<or> ivec_z (cell_coord i) > 62 \<longrightarrow> vec4_z v = 0)"
  using assms unfolding updateGrid_cell_def fdiv_def gridSize_def
  by (auto simp: Let_def split: if_splits)

text \<open>
  C4 fails on the code at the upper end of each axis.  \<open>updateGrid\<close> zeroes the
  \<open>x\<close>-velocity where \<open>x < 2\<close> or \<open>x > gridSize.x - 2\<close>, that is in the layers \<open>0\<close>, \<open>1\<close>
  and \<open>127\<close>: the two lowest layers but only the single highest one.  A particle at
  \<open>(125.5, 32.5, 32.5)\<close> with velocity \<open>(1, 0, 0)\<close> scatters into cell \<open>(126, 32, 32)\<close>,
  the second layer from the upper \<open>x\<close> boundary, and after the GridUpdate pass of the
  same step that cell holds the \<open>x\<close>-velocity \<open>1\<close>.
\<close>

theorem second_highest_layer_keeps_velocity:
  "p2g1 lone_uniforms (clearGrid edge_state) = Inr (after_p2g1 lone_uniforms edge_state)
   \<and> p2g2 lone_uniforms (after_p2g1 lone_uniforms edge_state) = Inr (after_p2g2 lone_uniforms edge_state)
   \<and> updateGrid (after_p2g2 lone_uniforms edge_state) = Inr (after_updateGrid lone_uniforms edge_state)
   \<and> cell_coord 518176 = ivec3 126 32 32
   \<and> cellBufferF (after_updateGrid lone_uniforms edge_state) 518176 = vec4 1 0 0 (9 / 128)"
proof -
  have c: "cell_coord 518176 = ivec3 126 32 32" unfolding cell_coord_def gridSize_def by simp
  have "resolved (after_p2g2 lone_uniforms edge_state) 518176 = vec4 1 0 0 (9 / 128)"
    unfolding resolved_def edge_cell_content updateGrid_cell_def c
    by (simp add: codec_values fdiv_def gridSize_def)
  then have "cellBufferF (after_updateGrid lone_uniforms edge_state) 518176 = vec4 1 0 0 (9 / 128)"
    by (simp add: after_updateGrid_F cellCount_def)
  with c edge_p2g1 edge_p2g2 after_updateGrid_eq show ?thesis by simp
qed

lemma fround_nat: "n < 16777216 \<Longrightarrow> fround (real n) = real n"
  using fround_of_int [of "int n"] by simp

lemma percent_mono: "i \<le> j \<Longrightarrow> particleIndexPercent u i \<le> particleIndexPercent u j"
  unfolding particleIndexPercent_def
  by (intro fround_mono mult_right_mono divide_right_mono fround_nonneg) simp_all

lemma hidden_set_iff: "i \<in> hidden_set u \<longleftrightarrow> i < numParticles u \<and> shouldHide u i"
  unfolding hidden_set_def by simp

lemma percent_error:
  assumes "i < numParticles u" and "numParticles u < 16777216"
  shows "\<bar>particleIndexPercent u i - real i * 100 / real (numParticles u)\<bar>
         \<le> real i * 100 / real (numParticles u) / 8000000"
proof (cases "i = 0")
  case True
  then show ?thesis unfolding particleIndexPercent_def by (simp add: fround_zero)
next
  case False
  define N where "N = numParticles u"
  define a where "a = real i / real N"
  define q where "q = fround a"
  have i24: "i < 16777216" using assms unfolding N_def by simp
  have N0: "0 < real N" using assms(1) unfolding N_def by simp
  have "1 \<le> real i" using False by simp
  then have "1 / real N \<le> a" unfolding a_def using N0 by (intro divide_right_mono) simp_all
  moreover have "1 / 16777216 \<le> 1 / real N"
    using N0 assms(2) unfolding N_def by (intro divide_left_mono) simp_all
  ultimately have alo: "1 / 16777216 \<le> a" by linarith
  have "(2::real) powi (- 126) \<le> 2 powi (- 24)" unfolding powi2_le_iff by simp
  also have "\<dots> = 1 / 16777216" by (simp add: power_int_minus_divide)
  finally have t: "(2::real) powi (- 126) \<le> 1 / 16777216" .
  have an: "2 powi (- 126) \<le> \<bar>a\<bar>" using t alo by simp
  from fround_rel_error [OF an] have qa: "\<bar>q - a\<bar> \<le> a / 16777216" unfolding q_def using alo by simp
  then have qlo: "1 / 16777216 \<le> q * 100" using alo by linarith
  then have "2 powi (- 126) \<le> \<bar>q * 100\<bar>" using t by simp
  from fround_rel_error [OF this] have pq: "\<bar>fround (q * 100) - q * 100\<bar> \<le> q * 100 / 16777216"
    using qlo by simp
  have "\<bar>fround (q * 100) - a * 100\<bar> \<le> a * 100 / 8000000" using pq qa alo by linarith
  moreover have "particleIndexPercent u i = fround (q * 100)"
    unfolding particleIndexPercent_def q_def a_def N_def
    using fround_nat [OF i24] fround_nat [OF assms(2)] by simp
  moreover have "real i * 100 / real (numParticles u) = a * 100" unfolding a_def N_def by simp
  ultimately show ?thesis by simp
qed

lemma hide_block_eq:
  assumes "shouldHide u i" and "0 < vec_x pos" and "vec_x pos < 128"
  shows "hide_block u i pos v =
           vec3 (vec_x v + (if useLeftEdge i then - (vec_x pos * 0.3) else (128 - vec_x pos) * 0.3) * dt u)
                (vec_y v) (vec_z v)"
proof -
  have c: "int_of_float (1 / 10) = 0" "int_of_float 2 = 2" by code_simp+
  show ?thesis
    using assms unfolding hide_block_def gridSize_def
    by (simp add: Let_def c wrap32_def)
qed

text \<open>
  C9 (amended).  When \<open>hidePercentage = p > 0\<close>, the particles pushed toward the \<open>x\<close> ends
  of the domain are selected by index order, not by a hash: among fewer than \<open>2^24\<close> active
  particles, whenever particle \<open>j\<close> is hidden so is every particle of smaller index.  Their
  number is the configured fraction of the \<open>N\<close> active particles up to the rounding of
  \<open>j / N * 100\<close> to single precision: particle \<open>j\<close> is hidden when \<open>j / N * 100\<close> is below \<open>p\<close> by
  more than one part in \<open>8000000\<close>, and is not hidden when it is above \<open>p\<close> by as much.  The
  hash of the particle index, \<open>fract(j * 12.9898) < 0.5\<close>, only chooses the side: a hidden
  particle at \<open>0 < x < 128\<close> is pushed with strength \<open>0.3\<close> times its distance toward the plane
  \<open>x = 0\<close> or the plane \<open>x = 128\<close> (the edge regions have width \<open>0\<close>, because
  \<open>edgeRegionWidth\<close> is an integer product).
\<close>

theorem hidden_particles_are_index_prefix:
  assumes "0 < hidePercentage u" and "i \<le> j" and "j < numParticles u"
      and "numParticles u < 16777216"
  shows "(j \<in> hidden_set u \<longrightarrow> i \<in> hidden_set u)
       \<and> (real j * 100 / real (numParticles u) * (1 + 1 / 8000000) < hidePercentage u
            \<longrightarrow> j \<in> hidden_set u)
       \<and> (hidePercentage u \<le> real j * 100 / real (numParticles u) * (1 - 1 / 8000000)
            \<longrightarrow> j \<notin> hidden_set u)
       \<and> (j \<in> hidden_set u \<longrightarrow> 0 < vec_x pos \<longrightarrow> vec_x pos < 128 \<longrightarrow>
            hide_block u j pos v =
              vec3 (vec_x v + (if useLeftEdge j then - (vec_x pos * 0.3) else (128 - vec_x pos) * 0.3) * dt u)
                   (vec_y v) (vec_z v))"
proof -
  define t where "t = real j * 100 / real (numParticles u)"
  have e: "\<bar>particleIndexPercent u j - t\<bar> \<le> t / 8000000"
    unfolding t_def by (rule percent_error [OF assms(3,4)])
  have i: "i < numParticles u" using assms(2,3) by simp
  have 1: "j \<in> hidden_set u \<longrightarrow> i \<in> hidden_set u"
    unfolding hidden_set_iff shouldHide_def using percent_mono [OF assms(2), of u] i by auto
  have 2: "t * (1 + 1 / 8000000) < hidePercentage u \<longrightarrow> j \<in> hidden_set u"
  proof
    assume "t * (1 + 1 / 8000000) < hidePercentage u"
    then have "t + t / 8000000 < hidePercentage u" by (simp add: algebra_simps)
    with e have "particleIndexPercent u j < hidePercentage u" by linarith
    then show "j \<in> hidden_set u" unfolding hidden_set_iff shouldHide_def using assms(1,3) by simp
  qed
  have 3: "hidePercentage u \<le> t * (1 - 1 / 8000000) \<longrightarrow> j \<notin> hidden_set u"
  proof
    assume "hidePercentage u \<le> t * (1 - 1 / 8000000)"
    then have "hidePercentage u \<le> t - t / 8000000" by (simp add: algebra_simps)
    with e have "\<not> particleIndexPercent u j < hidePercentage u" by linarith
    then show "j \<notin> hidden_set u" unfolding hidden_set_iff shouldHide_def by simp
  qed
  have 4: "j \<in> hidden_set u \<longrightarrow> 0 < vec_x pos \<longrightarrow> vec_x pos < 128 \<longrightarrow>
            hide_block u j pos v =
              vec3 (vec_x v + (if useLeftEdge j then - (vec_x pos * 0.3) else (128 - vec_x pos) * 0.3) * dt u)
                   (vec_y v) (vec_z v)"
    unfolding hidden_set_iff using hide_block_eq [of u j pos v] by blast
  from 1 2 3 4 show ?thesis unfolding t_def by blast
qed

lemma hide_uniforms_simps:
  "numParticles hide_uniforms = 4096" "hidePercentage hide_uniforms = 1" "dt hide_uniforms = 1 / 10"
  unfolding hide_uniforms_def chaos_uniforms_def by simp_all

lemma hide_uniforms_percent:
  "particleIndexPercent hide_uniforms 0 = 0" "particleIndexPercent hide_uniforms 3 = 75 / 1024"
  "particleIndexPercent hide_uniforms 40 = 125 / 128" "particleIndexPercent hide_uniforms 41 = 1025 / 1024"
  "particleIndexPercent hide_uniforms 2059 = 51475 / 1024"
  unfolding particleIndexPercent_def hide_uniforms_simps of_nat_numeral of_nat_0 by code_simp+

lemma hide_uniforms_values:
  "shouldHide hide_uniforms 3" "shouldHide hide_uniforms 40" "\<not> shouldHide hide_uniforms 41"
  "\<not> shouldHide hide_uniforms 2059" "shouldHide hide_uniforms 0"
  unfolding shouldHide_def hide_uniforms_percent hide_uniforms_simps by simp_all

lemma hideHash_values:
  "hideHash 0 = 0" "hideHash 2059 = 26746" "hideHash 40 = 2128249 / 4096"
  unfolding hideHash_def of_nat_numeral of_nat_0 by code_simp+

theorem hidden_particles_are_index_prefix_witness:
  "0 < hidePercentage hide_uniforms \<and> (3::nat) \<le> 40 \<and> 41 < numParticles hide_uniforms
   \<and> numParticles hide_uniforms < 16777216
   \<and> real 40 * 100 / real (numParticles hide_uniforms) * (1 + 1 / 8000000) < hidePercentage hide_uniforms
   \<and> hidePercentage hide_uniforms \<le> real 41 * 100 / real (numParticles hide_uniforms) * (1 - 1 / 8000000)
   \<and> 40 \<in> hidden_set hide_uniforms \<and> 3 \<in> hidden_set hide_uniforms \<and> 41 \<notin> hidden_set hide_uniforms
   \<and> hide_block hide_uniforms 40 (vec3 64 32 32) (vec3 0 0 0) = vec3 (192 / 100) 0 0"
proof -
  have h: "0 < hidePercentage hide_uniforms" "numParticles hide_uniforms < 16777216"
    "40 < numParticles hide_uniforms" "41 < numParticles hide_uniforms"
    by (simp_all add: hide_uniforms_simps)
  have l: "\<not> useLeftEdge 40" unfolding useLeftEdge_def hideHash_values by (simp add: frac_def)
  note a = hidden_particles_are_index_prefix [OF h(1) _ h(3,2), of 3 "vec3 64 32 32" "vec3 0 0 0"]
  note b = hidden_particles_are_index_prefix [OF h(1) _ h(4,2), of 41 "vec3 64 32 32" "vec3 0 0 0"]
  from a b show ?thesis using h l by (simp add: hide_uniforms_simps)
qed

text \<open>
  C9 fails where it says that a hash of the index selects the hidden particles.  The hash
  of the kernel is \<open>fract(float(i) * 12.9898)\<close>; in single precision it is \<open>0\<close> for the
  particles \<open>0\<close> and \<open>2059\<close> alike.  With \<open>4096\<close> active particles and \<open>hidePercentage = 1\<close>
  particle \<open>0\<close> is hidden and particle \<open>2059\<close> is not: what decides is the index.
\<close>

theorem hidden_particles_not_selected_by_hash:
  "frac (hideHash 0) = frac (hideHash 2059)
   \<and> useLeftEdge 0 = useLeftEdge 2059
   \<and> 0 \<in> hidden_set hide_uniforms
   \<and> 2059 < numParticles hide_uniforms \<and> 2059 \<notin> hidden_set hide_uniforms"
  unfolding hidden_set_iff useLeftEdge_def hideHash_values
  by (simp add: hide_uniforms_values hide_uniforms_simps frac_def)

lemma sum_sum_list_swap:
  fixes f :: "nat \<Rightarrow> 'a \<Rightarrow> int"
  shows "(\<Sum>c\<in>A. \<Sum>g\<leftarrow>gs. f c g) = (\<Sum>g\<leftarrow>gs. \<Sum>c\<in>A. f c g)"
  by (induction gs) (simp_all add: sum.distrib)

lemma stencil_length: "length stencil = 27"
  unfolding stencil_eq by simp

lemma stencil_encoded_upper:
  "(\<Sum>g\<leftarrow>stencil. encodeFixedPoint (massContrib pos g)) \<le> 10000000"
proof -
  have "real_of_int (\<Sum>g\<leftarrow>stencil. encodeFixedPoint (massContrib pos g))
        = (\<Sum>g\<leftarrow>stencil. real_of_int (encodeFixedPoint (massContrib pos g)))"
    by (rule of_int_sum_list_map)
  also have "\<dots> \<le> (\<Sum>g\<leftarrow>stencil. massContrib pos g * (10000000 + 10000000 / 16777216))"
  proof (intro sum_list_mono)
    fix g assume g: "g \<in> set stencil"
    have w: "0 \<le> massContrib pos g" "massContrib pos g \<le> 1"
      unfolding massContrib_def using weight_of_nonneg [of pos g] weight_of_le_one [OF g] by simp_all
    then have "massContrib pos g * 10000000 \<le> 2147483520" by simp
    from encode_le [OF w(1) this]
    show "real_of_int (encodeFixedPoint (massContrib pos g))
          \<le> massContrib pos g * (10000000 + 10000000 / 16777216)"
      by (simp add: algebra_simps)
  qed
  also have "\<dots> = (\<Sum>g\<leftarrow>stencil. massContrib pos g) * (10000000 + 10000000 / 16777216)"
    by (rule sum_list_mult_const)
  also have "\<dots> = 10000000 + 10000000 / 16777216" unfolding stencil_sum by simp
  finally have "real_of_int (\<Sum>g\<leftarrow>stencil. encodeFixedPoint (massContrib pos g)) < 10000001" by simp
  then show ?thesis by linarith
qed

lemma stencil_encoded_lower:
  "10000000 - 27 \<le> (\<Sum>g\<leftarrow>stencil. encodeFixedPoint (massContrib pos g))"
proof -
  define C :: real where "C = 10000000 - 10000000 / 16777216"
  have "(\<Sum>g\<leftarrow>stencil. massContrib pos g * C - 1)
        \<le> (\<Sum>g\<leftarrow>stencil. real_of_int (encodeFixedPoint (massContrib pos g)))"
  proof (intro sum_list_mono)
    fix g assume g: "g \<in> set stencil"
    have w: "0 \<le> massContrib pos g" "massContrib pos g \<le> 1"
      unfolding massContrib_def using weight_of_nonneg [of pos g] weight_of_le_one [OF g] by simp_all
    then have "\<bar>massContrib pos g * 10000000\<bar> \<le> 2147483520" by simp
    from encode_error [OF this] w(1)
    show "massContrib pos g * C - 1 \<le> real_of_int (encodeFixedPoint (massContrib pos g))"
      unfolding C_def by (simp add: algebra_simps abs_if split: if_splits)
  qed
  moreover have "(\<Sum>g\<leftarrow>stencil. massContrib pos g * C - 1)
        = (\<Sum>g\<leftarrow>stencil. massContrib pos g * C) - (\<Sum>g\<leftarrow>stencil. 1)"
    by (rule sum_list_subtractf)
  moreover have "(\<Sum>g\<leftarrow>stencil. massContrib pos g * C) = (\<Sum>g\<leftarrow>stencil. massContrib pos g) * C"
    by (rule sum_list_mult_const)
  moreover have "(\<Sum>g\<leftarrow>stencil. (1::real)) = 27" by (simp add: sum_list_triv stencil_length)
  moreover have "real_of_int (\<Sum>g\<leftarrow>stencil. encodeFixedPoint (massContrib pos g))
        = (\<Sum>g\<leftarrow>stencil. real_of_int (encodeFixedPoint (massContrib pos g)))"
    by (rule of_int_sum_list_map)
  ultimately have "C - 27 \<le> real_of_int (\<Sum>g\<leftarrow>stencil. encodeFixedPoint (massContrib pos g))"
    unfolding stencil_sum by simp
  then have "10000000 - 28 < real_of_int (\<Sum>g\<leftarrow>stencil. encodeFixedPoint (massContrib pos g))"
    unfolding C_def by simp
  then show ?thesis by linarith
qed

lemma lone_grid_mass:
  assumes "numParticles u = 1" and "p2g1 u (clearGrid st0) = Inr st1"
  shows "grid_mass st1 = (\<Sum>g\<leftarrow>stencil. encodeFixedPoint (massContrib (position (particleBuffer st0 ! 0)) g))"
proof -
  let ?pos = "position (particleBuffer st0 ! 0)"
  let ?ps = "take (numParticles u) (particleBuffer st0)"
  note f = scatter1_facts [OF assms(2)]
  have ps: "?ps = [particleBuffer st0 ! 0]"
    using f(1) assms(1) by (cases "particleBuffer st0") simp_all
  have ig: "stencil_in_grid ?pos" using f(4) [of 0] assms(1) by simp
  have cell: "\<And>g. g \<in> set stencil \<Longrightarrow> getCell (cellX_of ?pos g) = Inr (cell_of ?pos g)"
    using ig unfolding stencil_in_grid_def by (simp add: getCell_ok)
  have lt: "\<And>g. g \<in> set stencil \<Longrightarrow> cell_of ?pos g < cellCount"
    using cell getCell_lt by blast
  have le: "\<And>c. mass_sum ?ps c \<le> i32_max"
  proof -
    fix c
    have "mass_sum ?ps c \<le> 10000000" using mass_sum_le [of ?ps c] unfolding ps by simp
    then show "mass_sum ?ps c \<le> i32_max" unfolding i32_max_def by linarith
  qed
  have "grid_mass st1 = (\<Sum>c<cellCount. mass_sum ?ps c)"
    unfolding grid_mass_def
    by (rule sum.cong [OF refl]) (simp add: scatter1_mass [OF assms(2) _ le])
  also have "\<dots> = (\<Sum>c<cellCount. \<Sum>g\<leftarrow>stencil. mass_contrib_at ?pos c g)"
    unfolding ps mass_sum_def by simp
  also have "\<dots> = (\<Sum>g\<leftarrow>stencil. \<Sum>c<cellCount. mass_contrib_at ?pos c g)"
    by (rule sum_sum_list_swap)
  also have "\<dots> = (\<Sum>g\<leftarrow>stencil. encodeFixedPoint (massContrib ?pos g))"
  proof (rule arg_cong [where f = sum_list], rule map_cong [OF refl])
    fix g assume g: "g \<in> set stencil"
    have "(\<Sum>c<cellCount. mass_contrib_at ?pos c g)
          = (\<Sum>c<cellCount. if c = cell_of ?pos g then encodeFixedPoint (massContrib ?pos g) else 0)"
      unfolding mass_contrib_at_def cell [OF g] by (rule sum.cong [OF refl]) auto
    also have "\<dots> = encodeFixedPoint (massContrib ?pos g)"
      using lt [OF g] by (simp add: sum.delta)
    finally show "(\<Sum>c<cellCount. mass_contrib_at ?pos c g) = encodeFixedPoint (massContrib ?pos g)" .
  qed
  finally show ?thesis .
qed




end
